theory Spec2Isabelle
  imports Complex_Main "HOL-Library.Word"
begin

section \<open>Numbers, vectors and faults\<close>

text \<open>
  The steppers are templates over a state container and a time type. The model takes
  the container to be a sequence of numbers (\<open>real list\<close>, as \<open>std::vector\<close> of \<open>double\<close>)
  and the time type to be a number as well. Floating-point values are read as the real
  numbers they stand for. The program is read twice. The first reading leaves rounding,
  overflow and underflow of IEEE arithmetic out: it tells which value is computed from
  which, and is the subject of the statements on the formulas, the error estimate, the
  time and the tolerance. The second reading, \<open>do_step64\<close>, is the adaptive step in
  binary64 arithmetic, and is the subject of the statements on the size of the step
  after a call, which rounding and underflow decide. Where the program would leave the
  real numbers (a NaN or an infinity) or would read a vector out of its range
  (undefined behaviour in C++), either reading stops with a fault instead of inventing
  a value.
\<close>

datatype fault = OutOfBounds | NonFinite

type_synonym state_type = "real list"
type_synonym time_type = real

text \<open>
  \<open>std::pow\<close> as far as its value is the real power: a positive base, or base zero
  with a positive exponent (\<open>pow(0, y) = 0\<close>). For a negative base and a
  non-integral exponent (the only call has exponent \<open>0.2\<close>) \<open>std::pow\<close> returns NaN,
  and for base zero with a negative exponent an infinity.
\<close>

definition pow :: "real \<Rightarrow> real \<Rightarrow> fault + real" where
  "pow x y = (if 0 < x \<or> (x = 0 \<and> 0 < y) then Inr (x powr y) else Inl NonFinite)"

section \<open>The adaptive controller: \<open>solver::stepper_adaptive_rk4\<close>\<close>

text \<open>
  The fixed-step integrator \<open>stepper_rk4\<close> (header \<open>stepper_rk4.hpp\<close>) is not among
  the sources. Its member \<open>do_step(system, x, t, dt)\<close> is a parameter of the model: from
  the stepper object \<open>'k\<close>, the system \<open>'sys\<close>, the vector \<open>x\<close> passed by reference, the
  time and the step duration it gives the stepper object and the vector after the call.
  The system is handed on to the stepper as it is; it is a value that a call does not
  change.
\<close>

type_synonym ('k, 'sys) stepper_call =
  "'k \<Rightarrow> 'sys \<Rightarrow> state_type \<Rightarrow> time_type \<Rightarrow> time_type \<Rightarrow> 'k \<times> state_type"

record 'k stepper_adaptive_rk4 =
  stepper1 :: 'k
  stepper2 :: 'k
  state :: state_type
  tollerance :: time_type
  time_delta :: time_type
  time :: time_type

text \<open>
  The constructor \<open>stepper_adaptive_rk4(tollerance = 0.0001)\<close>; \<open>k0\<close> is a
  default-constructed \<open>stepper_rk4\<close>.
\<close>

definition default_tollerance :: real where
  "default_tollerance = 0.0001"

definition make_stepper_adaptive_rk4 :: "'k \<Rightarrow> real \<Rightarrow> 'k stepper_adaptive_rk4" where
  "make_stepper_adaptive_rk4 k0 tol =
     \<lparr>stepper1 = k0, stepper2 = k0, state = [], tollerance = tol,
      time_delta = 1 / 10 ^ 12, time = 0\<rparr>"

definition order_step :: "'k stepper_adaptive_rk4 \<Rightarrow> nat" where
  "order_step s = 0"

definition initialize ::
  "'k stepper_adaptive_rk4 \<Rightarrow> state_type \<Rightarrow> time_type \<Rightarrow> time_type \<Rightarrow> 'k stepper_adaptive_rk4" where
  "initialize s x t dt = s\<lparr>state := x, time := t, time_delta := dt\<rparr>"

definition current_state :: "'k stepper_adaptive_rk4 \<Rightarrow> state_type" where
  "current_state s = state s"

definition current_time_step :: "'k stepper_adaptive_rk4 \<Rightarrow> time_type" where
  "current_time_step s = time_delta s"

definition current_time :: "'k stepper_adaptive_rk4 \<Rightarrow> time_type" where
  "current_time s = time s"

text \<open>
  The four-argument \<open>do_step(system, x, t, dt)\<close> applies the call operator of the first
  stepper to the caller's vector; \<open>call_op\<close> stands for that operator.
\<close>

definition do_step_fixed ::
  "('k, 'sys) stepper_call \<Rightarrow> 'k stepper_adaptive_rk4 \<Rightarrow> 'sys \<Rightarrow> state_type \<Rightarrow> time_type \<Rightarrow> time_type
     \<Rightarrow> 'k stepper_adaptive_rk4 \<times> state_type" where
  "do_step_fixed call_op s system x t dt =
     (let (k1, x') = call_op (stepper1 s) system x t dt in (s\<lparr>stepper1 := k1\<rparr>, x'))"

subsection \<open>The truncation error\<close>

text \<open>
  The three error measures of one component: absolute, relative and mixed. The last
  two divide by the component of the new state; a zero there gives an infinity or a NaN.
\<close>

definition abs_err :: "real \<Rightarrow> real \<Rightarrow> fault + real" where
  "abs_err a b = Inr \<bar>a - b\<bar>"

definition rel_err :: "real \<Rightarrow> real \<Rightarrow> fault + real" where
  "rel_err a b = (if a = 0 then Inl NonFinite else Inr \<bar>(a - b) / a\<bar>)"

definition mixed_err :: "real \<Rightarrow> real \<Rightarrow> fault + real" where
  "mixed_err a b =
     (if a = 0 then Inl NonFinite
      else let err1 = \<bar>(a - b) / a\<bar>; err2 = \<bar>a - b\<bar>
           in Inr (if err1 < err2 then err1 else err2))"

text \<open>
  The loop \<open>for (i = 0; i < _state.size(); i++)\<close> over the indices still to visit, with
  the running maximum \<open>t_err\<close>. It reads \<open>_state[i]\<close> and \<open>_y0[i]\<close>; the second read is out
  of range when \<open>_y0\<close> is the shorter vector.
\<close>

fun err_loop ::
  "(real \<Rightarrow> real \<Rightarrow> fault + real) \<Rightarrow> state_type \<Rightarrow> state_type \<Rightarrow> nat list \<Rightarrow> real \<Rightarrow> fault + real" where
  "err_loop f st y0 [] t_err = Inr t_err"
| "err_loop f st y0 (i # is) t_err =
     (if i < length st \<and> i < length y0 then
        (case f (st ! i) (y0 ! i) of
           Inl e \<Rightarrow> Inl e
         | Inr err \<Rightarrow> err_loop f st y0 is (if err > t_err then err else t_err))
      else Inl OutOfBounds)"

text \<open>The constant \<open>flag\<close> that selects the branch of the \<open>if constexpr\<close>.\<close>

definition flag :: nat where
  "flag = 0"

definition truncation_error :: "nat \<Rightarrow> state_type \<Rightarrow> state_type \<Rightarrow> fault + real" where
  "truncation_error fl st y0 =
     (if fl = 0 then err_loop abs_err st y0 [0..<length st] 0
      else if fl = 1 then err_loop rel_err st y0 [0..<length st] 0
      else err_loop mixed_err st y0 [0..<length st] 0)"

text \<open>The guard \<open>if (t_err == 0.) t_err = 1.e-15\<close>.\<close>

definition floor_error :: "real \<Rightarrow> real" where
  "floor_error t_err = (if t_err = 0 then 1 / 10 ^ 15 else t_err)"

subsection \<open>One adaptive step\<close>

text \<open>
  \<open>do_step(system)\<close>: the copy \<open>_y0\<close> of the state takes one step of the full duration
  with the first stepper, the state itself two steps of half the duration with the
  second stepper, the time advances, and the step size is recomputed from the
  truncation error.
\<close>

definition do_step ::
  "('k, 'sys) stepper_call \<Rightarrow> 'k stepper_adaptive_rk4 \<Rightarrow> 'sys \<Rightarrow> fault + 'k stepper_adaptive_rk4" where
  "do_step rk4 s system =
     (let (k1, y0) = rk4 (stepper1 s) system (state s) (time s) (time_delta s);
          (k2, x_half) = rk4 (stepper2 s) system (state s) (time s) (time_delta s * 0.5);
          (k2', x_new) = rk4 k2 system x_half (time s + time_delta s * 0.5) (time_delta s * 0.5);
          time' = time s + time_delta s
      in case truncation_error flag x_new y0 of
           Inl e \<Rightarrow> Inl e
         | Inr t_err0 \<Rightarrow>
             (let t_err = floor_error t_err0
              in case pow (tollerance s / (2 * t_err)) 0.2 of
                   Inl e \<Rightarrow> Inl e
                 | Inr p \<Rightarrow>
                     Inr (s\<lparr>stepper1 := k1, stepper2 := k2', state := x_new, time := time',
                            time_delta := 0.9 * time_delta s * min (max p 0.3) 1.5\<rparr>)))"

text \<open>
  The values the step computes on its way, named for the statements below: candidate A
  is \<open>_y0\<close> after its full step, candidate B is \<open>_state\<close> after the two half steps.
\<close>

definition candidate_A :: "('k, 'sys) stepper_call \<Rightarrow> 'k stepper_adaptive_rk4 \<Rightarrow> 'sys \<Rightarrow> state_type" where
  "candidate_A rk4 s system = snd (rk4 (stepper1 s) system (state s) (time s) (time_delta s))"

definition candidate_B :: "('k, 'sys) stepper_call \<Rightarrow> 'k stepper_adaptive_rk4 \<Rightarrow> 'sys \<Rightarrow> state_type" where
  "candidate_B rk4 s system =
     (let (k2, x_half) = rk4 (stepper2 s) system (state s) (time s) (time_delta s * 0.5)
      in snd (rk4 k2 system x_half (time s + time_delta s * 0.5) (time_delta s * 0.5)))"

text \<open>The session a step leaves behind when its power term is \<open>p\<close>.\<close>

definition stepped ::
  "('k, 'sys) stepper_call \<Rightarrow> 'k stepper_adaptive_rk4 \<Rightarrow> 'sys \<Rightarrow> real \<Rightarrow> 'k stepper_adaptive_rk4" where
  "stepped rk4 s system p =
     s\<lparr>stepper1 := fst (rk4 (stepper1 s) system (state s) (time s) (time_delta s)),
       stepper2 := fst (rk4 (fst (rk4 (stepper2 s) system (state s) (time s) (time_delta s * 0.5))) system
                      (snd (rk4 (stepper2 s) system (state s) (time s) (time_delta s * 0.5)))
                      (time s + time_delta s * 0.5) (time_delta s * 0.5)),
       state := candidate_B rk4 s system,
       time := time s + time_delta s,
       time_delta := 0.9 * time_delta s * min (max p 0.3) 1.5\<rparr>"

text \<open>
  The absolute infinity norm of the difference of two vectors, in the words of the
  specification: the maximum over all components of the absolute difference, and zero
  for a vector without components.
\<close>

definition max_abs_diff :: "state_type \<Rightarrow> state_type \<Rightarrow> real" where
  "max_abs_diff b a = Max (insert 0 ((\<lambda>i. \<bar>b ! i - a ! i\<bar>) ` {..<length b}))"

subsection \<open>Runs of the controller\<close>

text \<open>
  The caller's loop: one call of \<open>do_step\<close> for each system of the list, and the step
  sizes in effect at the start of each of these calls.
\<close>

fun run_steps ::
  "('k, 'sys) stepper_call \<Rightarrow> 'k stepper_adaptive_rk4 \<Rightarrow> 'sys list \<Rightarrow> fault + 'k stepper_adaptive_rk4" where
  "run_steps rk4 s [] = Inr s"
| "run_steps rk4 s (system # systems) =
     (case do_step rk4 s system of Inl e \<Rightarrow> Inl e | Inr s' \<Rightarrow> run_steps rk4 s' systems)"

fun step_sizes ::
  "('k, 'sys) stepper_call \<Rightarrow> 'k stepper_adaptive_rk4 \<Rightarrow> 'sys list \<Rightarrow> real list" where
  "step_sizes rk4 s [] = []"
| "step_sizes rk4 s (system # systems) =
     time_delta s # (case do_step rk4 s system of Inl e \<Rightarrow> [] | Inr s' \<Rightarrow> step_sizes rk4 s' systems)"

text \<open>
  The public operations of the class as calls, and the session after a call. The
  accessors are \<open>const\<close> members: they leave the session as it is.
\<close>

datatype 'sys call =
    Initialize state_type time_type time_type
  | Step 'sys
  | FixedStep 'sys state_type time_type time_type
  | CurrentState
  | CurrentTimeStep
  | CurrentTime
  | OrderStep

fun perform ::
  "('k, 'sys) stepper_call \<Rightarrow> ('k, 'sys) stepper_call \<Rightarrow> 'k stepper_adaptive_rk4 \<Rightarrow> 'sys call
     \<Rightarrow> fault + 'k stepper_adaptive_rk4" where
  "perform rk4 call_op s (Initialize x t dt) = Inr (initialize s x t dt)"
| "perform rk4 call_op s (Step system) = do_step rk4 s system"
| "perform rk4 call_op s (FixedStep system x t dt) = Inr (fst (do_step_fixed call_op s system x t dt))"
| "perform rk4 call_op s CurrentState = Inr s"
| "perform rk4 call_op s CurrentTimeStep = Inr s"
| "perform rk4 call_op s CurrentTime = Inr s"
| "perform rk4 call_op s OrderStep = Inr s"

fun perform_all ::
  "('k, 'sys) stepper_call \<Rightarrow> ('k, 'sys) stepper_call \<Rightarrow> 'k stepper_adaptive_rk4 \<Rightarrow> 'sys call list
     \<Rightarrow> fault + 'k stepper_adaptive_rk4" where
  "perform_all rk4 call_op s [] = Inr s"
| "perform_all rk4 call_op s (c # cs) =
     (case perform rk4 call_op s c of Inl e \<Rightarrow> Inl e | Inr s' \<Rightarrow> perform_all rk4 call_op s' cs)"

text \<open>A stepper that updates the vector in place leaves its length as it was.\<close>

definition keeps_size :: "('k, 'sys) stepper_call \<Rightarrow> 'sys \<Rightarrow> bool" where
  "keeps_size rk4 system = (\<forall>k x t dt. length (snd (rk4 k system x t dt)) = length x)"

subsection \<open>A stepper and sessions to run the controller on\<close>

text \<open>
  For evaluating the controller at inputs, the parameter is instantiated with the
  explicit Euler step \<open>x + dt * f(x, t)\<close>, a stepper without a state of its own, on the
  systems \<open>dx/dt = x\<close> and \<open>dx/dt = 0\<close>. The session \<open>growing\<close> has tolerance \<open>4\<close>,
  state \<open>[4, 8]\<close>, time \<open>0\<close> and step size \<open>1\<close>; \<open>resting\<close> is the two-dimensional
  state \<open>[1, 2]\<close> at time \<open>0\<close> with the default tolerance and step size \<open>0.001\<close>.
\<close>

definition euler_call :: "(unit, state_type \<Rightarrow> time_type \<Rightarrow> state_type) stepper_call" where
  "euler_call k f x t dt = (k, map2 (\<lambda>xi di. xi + dt * di) x (f x t))"

definition growth :: "state_type \<Rightarrow> time_type \<Rightarrow> state_type" where
  "growth x t = x"

definition still :: "state_type \<Rightarrow> time_type \<Rightarrow> state_type" where
  "still x t = map (\<lambda>v. 0) x"

definition growing :: "unit stepper_adaptive_rk4" where
  "growing = initialize (make_stepper_adaptive_rk4 () 4) [4, 8] 0 1"

definition resting :: "unit stepper_adaptive_rk4" where
  "resting = initialize (make_stepper_adaptive_rk4 () default_tollerance) [1, 2] 0 (1 / 1000)"

section \<open>The adaptive controller in binary64 arithmetic\<close>

text \<open>
  The size of the step after a call is the outcome of two rounded multiplications, and
  whether it stays within a factor of the size before the call, or above zero, is
  decided by these roundings. For the statements on the size of the step the
  arithmetic of \<open>do_step(system)\<close> is therefore read a second time, in IEEE 754 binary64
  with rounding to nearest, ties to even, the format and the rounding of \<open>double\<close>.

  A double is the real number it stands for. \<open>round_even\<close> is rounding to the nearest
  integer with ties to the even one. The doubles around \<open>x\<close> are the multiples of
  \<open>ulp x\<close>, which is \<open>2\<close> to the power \<open>e - 52\<close> for the exponent \<open>e\<close> of \<open>x\<close>, and
  \<open>2\<close> to the power \<open>- 1074\<close> for all \<open>x\<close> below the least normal number (gradual
  underflow). \<open>fl x\<close> is the double nearest to \<open>x\<close>. A result beyond the largest finite
  double is an infinity in the program, and a fault here.
\<close>

definition round_even :: "real \<Rightarrow> int" where
  "round_even q =
     (let f = \<lfloor>q\<rfloor>
      in if q - of_int f < 1 / 2 then f
         else if 1 / 2 < q - of_int f then f + 1
         else if even f then f else f + 1)"

definition expo :: "real \<Rightarrow> int" where
  "expo x = max (- 1022) \<lfloor>log 2 \<bar>x\<bar>\<rfloor>"

definition ulp :: "real \<Rightarrow> real" where
  "ulp x = 2 powi (expo x - 52)"

definition fl :: "real \<Rightarrow> real" where
  "fl x = (if x = 0 then 0 else of_int (round_even (x / ulp x)) * ulp x)"

definition max_double :: real where
  "max_double = (2 - 1 / 2 ^ 52) * 2 ^ 1023"

definition fl64 :: "real \<Rightarrow> fault + real" where
  "fl64 x = (if \<bar>fl x\<bar> \<le> max_double then Inr (fl x) else Inl NonFinite)"

text \<open>
  The operators \<open>+\<close>, \<open>-\<close>, \<open>*\<close> and \<open>/\<close> on doubles: the exact result, rounded once.
  A division by zero gives an infinity or a NaN.
\<close>

definition add64 :: "real \<Rightarrow> real \<Rightarrow> fault + real" where
  "add64 a b = fl64 (a + b)"

definition sub64 :: "real \<Rightarrow> real \<Rightarrow> fault + real" where
  "sub64 a b = fl64 (a - b)"

definition mul64 :: "real \<Rightarrow> real \<Rightarrow> fault + real" where
  "mul64 a b = fl64 (a * b)"

definition div64 :: "real \<Rightarrow> real \<Rightarrow> fault + real" where
  "div64 a b = (if b = 0 then Inl NonFinite else fl64 (a / b))"

text \<open>A computation goes on with the value of the one before it, or stops at its fault.\<close>

definition and_then :: "fault + 'a \<Rightarrow> ('a \<Rightarrow> fault + 'b) \<Rightarrow> fault + 'b" where
  "and_then m f = (case m of Inl e \<Rightarrow> Inl e | Inr v \<Rightarrow> f v)"

text \<open>The branch \<open>err = std::abs(_state[i] - _y0[i])\<close> of the loop; \<open>std::abs\<close> is exact.\<close>

definition abs_err64 :: "real \<Rightarrow> real \<Rightarrow> fault + real" where
  "abs_err64 a b = and_then (sub64 a b) (\<lambda>d. Inr \<bar>d\<bar>)"

text \<open>
  \<open>do_step(system)\<close>, operation by operation. The product \<open>_time_delta * 0.5\<close> is
  written three times in the source and has one value, \<open>half\<close>; the literals \<open>1.e-15\<close>,
  \<open>0.2\<close>, \<open>0.9\<close> and \<open>0.3\<close> are the doubles nearest to them, while \<open>0.5\<close>, \<open>1.5\<close> and \<open>2\<close>
  are doubles themselves. The expression \<open>0.9 * _time_delta * std::min(...)\<close> is two
  multiplications from the left, each rounded. \<open>std::min\<close>, \<open>std::max\<close> and the
  comparisons are exact. \<open>std::pow\<close> is the parameter \<open>pw\<close>: the C++ standard does not
  fix its rounding, and the statements on \<open>do_step64\<close> hold for every such function.
  The two steppers remain the parameter \<open>rk4\<close>.
\<close>

definition do_step64 ::
  "(real \<Rightarrow> real \<Rightarrow> fault + real) \<Rightarrow> ('k, 'sys) stepper_call \<Rightarrow> 'k stepper_adaptive_rk4 \<Rightarrow> 'sys
     \<Rightarrow> fault + 'k stepper_adaptive_rk4" where
  "do_step64 pw rk4 s system =
     (let (k1, y0) = rk4 (stepper1 s) system (state s) (time s) (time_delta s)
      in and_then (mul64 (time_delta s) 0.5) (\<lambda>half.
         let (k2, x_half) = rk4 (stepper2 s) system (state s) (time s) half
         in and_then (add64 (time s) half) (\<lambda>t_half.
         let (k2', x_new) = rk4 k2 system x_half t_half half
         in and_then (add64 (time s) (time_delta s)) (\<lambda>time'.
         and_then (err_loop abs_err64 x_new y0 [0..<length x_new] 0) (\<lambda>t_err0.
         let t_err = (if t_err0 = 0 then fl (1 / 10 ^ 15) else t_err0)
         in and_then (mul64 2 t_err) (\<lambda>d.
         and_then (div64 (tollerance s) d) (\<lambda>q.
         and_then (pw q (fl 0.2)) (\<lambda>p.
         and_then (mul64 (fl 0.9) (time_delta s)) (\<lambda>a.
         and_then (mul64 a (min (max p (fl 0.3)) 1.5)) (\<lambda>dt'.
         Inr (s\<lparr>stepper1 := k1, stepper2 := k2', state := x_new, time := time',
                time_delta := dt'\<rparr>)))))))))))"

text \<open>
  A \<open>std::pow\<close> to run the step with: the real power, rounded once. The runs below
  need of it only that its value is above \<open>1.5\<close> or below \<open>0.3\<close> where the real power is
  above \<open>16\<close> or below \<open>1 / 4\<close>.
\<close>

definition pow64 :: "real \<Rightarrow> real \<Rightarrow> fault + real" where
  "pow64 x y = (if 0 < x \<or> (x = 0 \<and> 0 < y) then fl64 (x powr y) else Inl NonFinite)"

text \<open>The caller's loop over \<open>do_step64\<close>.\<close>

fun run_steps64 ::
  "(real \<Rightarrow> real \<Rightarrow> fault + real) \<Rightarrow> ('k, 'sys) stepper_call \<Rightarrow> 'k stepper_adaptive_rk4 \<Rightarrow> 'sys list
     \<Rightarrow> fault + 'k stepper_adaptive_rk4" where
  "run_steps64 pw rk4 s [] = Inr s"
| "run_steps64 pw rk4 s (system # systems) =
     (case do_step64 pw rk4 s system of Inl e \<Rightarrow> Inl e | Inr s' \<Rightarrow> run_steps64 pw rk4 s' systems)"

text \<open>
  Three sessions of doubles on the state \<open>[1, 2]\<close> at time \<open>0\<close>: \<open>three64\<close> and
  \<open>seven64\<close> with the default tolerance (the double nearest to \<open>0.0001\<close>) and the step
  sizes \<open>3\<close> and \<open>7\<close>, \<open>tiny64\<close> with the tolerance \<open>2\<close> to the power \<open>- 1000\<close> and the
  least positive double, \<open>2\<close> to the power \<open>- 1074\<close>, as its step size. On the systems
  \<open>dx/dt = 0\<close> and \<open>dx/dt = x\<close> the Euler steps of these sessions are doubles without
  rounding.
\<close>

definition three64 :: "unit stepper_adaptive_rk4" where
  "three64 = initialize (make_stepper_adaptive_rk4 () (fl default_tollerance)) [1, 2] 0 3"

definition seven64 :: "unit stepper_adaptive_rk4" where
  "seven64 = initialize (make_stepper_adaptive_rk4 () (fl default_tollerance)) [1, 2] 0 7"

definition tiny64 :: "unit stepper_adaptive_rk4" where
  "tiny64 = initialize (make_stepper_adaptive_rk4 () (1 / 2 ^ 1000)) [1, 2] 0 (1 / 2 ^ 1074)"

section \<open>The trapezoidal stepper: \<open>numint::stepper_trapezoidal\<close>\<close>

text \<open>
  The system is called as \<open>system(x, dxdt, t)\<close> and writes the derivative into the
  buffer \<open>dxdt\<close> it receives by reference: in the model it maps the state, the buffer
  before the call and the time to the buffer after the call. It is a function of these
  arguments and leaves \<open>x\<close> as it is.
\<close>

type_synonym system_fn = "state_type \<Rightarrow> state_type \<Rightarrow> time_type \<Rightarrow> state_type"

text \<open>The counter \<open>m_steps\<close> is an \<open>unsigned long\<close>, taken with 64 bits.\<close>

record stepper_trapezoidal =
  m_dxdt_start :: state_type
  m_dxdt_end :: state_type
  m_steps :: "64 word"

text \<open>The defaulted constructor: empty buffers, the counter at zero.\<close>

definition make_stepper_trapezoidal :: stepper_trapezoidal where
  "make_stepper_trapezoidal = \<lparr>m_dxdt_start = [], m_dxdt_end = [], m_steps = 0\<rparr>"

definition trapezoidal_order_step :: "stepper_trapezoidal \<Rightarrow> nat" where
  "trapezoidal_order_step s = 1"

text \<open>\<open>std::vector::resize\<close>: cut to \<open>n\<close> elements or filled up with zeros.\<close>

definition resize :: "state_type \<Rightarrow> nat \<Rightarrow> state_type" where
  "resize v n = take n v @ replicate (n - length v) 0"

text \<open>
  \<open>adjust_size\<close>; the trait \<open>has_resize\<close> of the state type (header
  \<open>numint/detail/type_traits.hpp\<close>, not among the sources) is a parameter.
\<close>

definition adjust_size :: "bool \<Rightarrow> stepper_trapezoidal \<Rightarrow> state_type \<Rightarrow> stepper_trapezoidal" where
  "adjust_size has_resize s reference =
     (if has_resize then
        s\<lparr>m_dxdt_start := resize (m_dxdt_start s) (length reference),
          m_dxdt_end := resize (m_dxdt_end s) (length reference)\<rparr>
      else s)"

definition steps :: "stepper_trapezoidal \<Rightarrow> 64 word" where
  "steps s = m_steps s"

text \<open>
  Modelled from the spec: \<open>detail::it_algebra::accumulate_operation\<close> (header
  \<open>numint/detail/it_algebra.hpp\<close>) is missing from the sources. The specification has
  the integrator combine the derivative samples with fixed weights and overwrite the
  state vector in place; the comment at the call in \<open>do_step\<close> gives the combination,
  \<open>x(t + dt) = x(t) + (0.5 * dt * dxdt_start) + (0.5 * dt * dxdt_end)\<close>. So the helper
  walks the range \<open>[y_begin, y_end)\<close> and the two input iterators together and adds
  \<open>op(a0, x0[i]) + op(a1, x1[i])\<close> to every \<open>y[i]\<close>. An input that ends before the range
  does is read out of its range.
\<close>

fun accumulate_operation ::
  "state_type \<Rightarrow> (real \<Rightarrow> real \<Rightarrow> real) \<Rightarrow> real \<Rightarrow> state_type \<Rightarrow> real \<Rightarrow> state_type
     \<Rightarrow> fault + state_type" where
  "accumulate_operation [] op a0 x0 a1 x1 = Inr []"
| "accumulate_operation (y # ys) op a0 (u # us) a1 (v # vs) =
     (case accumulate_operation ys op a0 us a1 vs of
        Inl e \<Rightarrow> Inl e
      | Inr r \<Rightarrow> Inr ((y + (op a0 u + op a1 v)) # r))"
| "accumulate_operation (y # ys) op a0 [] a1 x1 = Inl OutOfBounds"
| "accumulate_operation (y # ys) op a0 (u # us) a1 [] = Inl OutOfBounds"

text \<open>
  \<open>do_step(system, x, t, dt)\<close>: the derivative at the start, the derivative at the end,
  the update of \<open>x\<close>, the counter. It gives the stepper and the vector \<open>x\<close> after the call.
\<close>

definition trapezoidal_do_step ::
  "stepper_trapezoidal \<Rightarrow> system_fn \<Rightarrow> state_type \<Rightarrow> time_type \<Rightarrow> time_type
     \<Rightarrow> fault + stepper_trapezoidal \<times> state_type" where
  "trapezoidal_do_step s system x t dt =
     (let dxdt_start = system x (m_dxdt_start s) t;
          dxdt_end = system x (m_dxdt_end s) (t + dt)
      in case accumulate_operation x (*) (0.5 * dt) dxdt_start (0.5 * dt) dxdt_end of
           Inl e \<Rightarrow> Inl e
         | Inr x' \<Rightarrow>
             Inr (s\<lparr>m_dxdt_start := dxdt_start, m_dxdt_end := dxdt_end, m_steps := m_steps s + 1\<rparr>, x'))"

text \<open>A system to run the stepper on: \<open>dx/dt = x + t\<close>, written over the whole buffer.\<close>

definition ramp :: system_fn where
  "ramp x dxdt t = map (\<lambda>v. v + t) x"

section \<open>Facts about the controller\<close>

subsection \<open>The error loop\<close>

lemma floor_error_pos: "0 \<le> e \<Longrightarrow> 0 < floor_error e"
  by (simp add: floor_error_def)

lemma err_loop_abs_Inr:
  "\<forall>i \<in> set is. i < length st \<and> i < length y0 \<Longrightarrow>
   err_loop abs_err st y0 is t = Inr (Max (insert t ((\<lambda>i. \<bar>st ! i - y0 ! i\<bar>) ` set is)))"
proof (induction "is" arbitrary: t)
  case Nil
  then show ?case by simp
next
  case (Cons i "is")
  let ?d = "\<lambda>i. \<bar>st ! i - y0 ! i\<bar>"
  have fin: "finite (?d ` set is)" by simp
  have "Max (insert (if ?d i > t then ?d i else t) (?d ` set is)) = Max (insert t (insert (?d i) (?d ` set is)))"
  proof (cases "set is = {}")
    case True
    then show ?thesis by (simp add: max_def)
  next
    case False
    then have ne: "?d ` set is \<noteq> {}" by simp
    show ?thesis using fin ne by (simp add: max_def)
  qed
  with Cons show ?case by (simp add: abs_err_def)
qed

lemma err_loop_abs_Inl:
  "\<exists>i \<in> set is. \<not> (i < length st \<and> i < length y0) \<Longrightarrow> err_loop abs_err st y0 is t = Inl OutOfBounds"
  by (induction "is" arbitrary: t) (auto simp: abs_err_def)

lemma truncation_error_Inr:
  assumes "length st \<le> length y0"
  shows "truncation_error flag st y0 = Inr (max_abs_diff st y0)"
proof -
  have "\<forall>i \<in> set [0..<length st]. i < length st \<and> i < length y0"
    using assms by auto
  from err_loop_abs_Inr [OF this, of 0] show ?thesis
    by (simp add: truncation_error_def flag_def max_abs_diff_def lessThan_atLeast0)
qed

lemma truncation_error_Inl:
  assumes "length y0 < length st"
  shows "truncation_error flag st y0 = Inl OutOfBounds"
proof -
  have "\<exists>i \<in> set [0..<length st]. \<not> (i < length st \<and> i < length y0)"
    using assms by (intro bexI [of _ "length y0"]) auto
  from err_loop_abs_Inl [OF this, of 0] show ?thesis
    by (simp add: truncation_error_def flag_def)
qed

lemma max_abs_diff_nonneg: "0 \<le> max_abs_diff b a"
  by (simp add: max_abs_diff_def)

lemma max_abs_diff_nonempty:
  assumes "b \<noteq> []"
  shows "max_abs_diff b a = Max ((\<lambda>i. \<bar>b ! i - a ! i\<bar>) ` {..<length b})"
proof -
  let ?D = "(\<lambda>i. \<bar>b ! i - a ! i\<bar>) ` {..<length b}"
  have fin: "finite ?D" by simp
  have "0 < length b" using assms by simp
  then have "{..<length b} \<noteq> {}" by (auto simp: lessThan_def)
  then have ne: "?D \<noteq> {}" by simp
  have "\<bar>b ! 0 - a ! 0\<bar> \<in> ?D" using assms by (intro imageI) simp
  then have "\<bar>b ! 0 - a ! 0\<bar> \<le> Max ?D" using fin by (rule Max_ge [rotated])
  then have "0 \<le> Max ?D" by linarith
  then show ?thesis using fin ne by (simp add: max_abs_diff_def max_def)
qed

lemma max_abs_diff_zero:
  assumes "\<forall>i<length b. b ! i - a ! i = 0"
  shows "max_abs_diff b a = 0"
proof -
  have "insert 0 ((\<lambda>i. \<bar>b ! i - a ! i\<bar>) ` {..<length b}) = {0::real}"
    using assms by auto
  then have "Max (insert 0 ((\<lambda>i. \<bar>b ! i - a ! i\<bar>) ` {..<length b})) = Max {0::real}"
    by (rule arg_cong)
  then show ?thesis by (simp add: max_abs_diff_def)
qed

subsection \<open>One step\<close>

lemma do_step_unfold:
  "do_step rk4 s system =
     (case truncation_error flag (candidate_B rk4 s system) (candidate_A rk4 s system) of
        Inl e \<Rightarrow> Inl e
      | Inr t_err0 \<Rightarrow>
          (case pow (tollerance s / (2 * floor_error t_err0)) 0.2 of
             Inl e \<Rightarrow> Inl e
           | Inr p \<Rightarrow> Inr (stepped rk4 s system p)))"
  by (simp add: do_step_def candidate_A_def candidate_B_def stepped_def Let_def
      split: prod.splits sum.splits)

lemma pow_nonneg: "0 \<le> x \<Longrightarrow> pow x 0.2 = Inr (x powr 0.2)"
  by (auto simp: pow_def)

lemma pow_neg: "x < 0 \<Longrightarrow> pow x y = Inl NonFinite"
  by (auto simp: pow_def)

lemma do_step_Inr:
  assumes len: "length (candidate_B rk4 s system) \<le> length (candidate_A rk4 s system)"
    and tol: "0 \<le> tollerance s"
  shows "do_step rk4 s system = Inr (stepped rk4 s system
     ((tollerance s / (2 * floor_error (max_abs_diff (candidate_B rk4 s system) (candidate_A rk4 s system)))) powr 0.2))"
proof -
  let ?e = "floor_error (max_abs_diff (candidate_B rk4 s system) (candidate_A rk4 s system))"
  have "0 < ?e" by (simp add: floor_error_pos max_abs_diff_nonneg)
  then have "0 \<le> tollerance s / (2 * ?e)" using tol by simp
  then have p: "pow (tollerance s / (2 * ?e)) 0.2 = Inr ((tollerance s / (2 * ?e)) powr 0.2)"
    by (rule pow_nonneg)
  show ?thesis
    by (simp only: do_step_unfold truncation_error_Inr [OF len] p sum.case)
qed

lemma do_step_InrD:
  assumes "do_step rk4 s system = Inr s'"
  shows "length (candidate_B rk4 s system) \<le> length (candidate_A rk4 s system) \<and> 0 \<le> tollerance s"
proof -
  have len: "length (candidate_B rk4 s system) \<le> length (candidate_A rk4 s system)"
  proof (rule ccontr)
    assume "\<not> length (candidate_B rk4 s system) \<le> length (candidate_A rk4 s system)"
    then have "length (candidate_A rk4 s system) < length (candidate_B rk4 s system)" by simp
    from truncation_error_Inl [OF this] assms show False
      by (simp add: do_step_unfold)
  qed
  have "0 \<le> tollerance s"
  proof (rule ccontr)
    assume "\<not> 0 \<le> tollerance s"
    then have neg: "tollerance s < 0" by simp
    let ?e = "floor_error (max_abs_diff (candidate_B rk4 s system) (candidate_A rk4 s system))"
    have "0 < ?e" by (simp add: floor_error_pos max_abs_diff_nonneg)
    then have "tollerance s / (2 * ?e) < 0" using neg by (simp add: divide_neg_pos)
    then have "pow (tollerance s / (2 * ?e)) 0.2 = Inl NonFinite" by (rule pow_neg)
    with assms show False
      by (simp only: do_step_unfold truncation_error_Inr [OF len] sum.case sum.distinct)
  qed
  with len show ?thesis by simp
qed

lemma do_step_sound:
  assumes "do_step rk4 s system = Inr s'"
  shows "s' = stepped rk4 s system
     ((tollerance s / (2 * floor_error (max_abs_diff (candidate_B rk4 s system) (candidate_A rk4 s system)))) powr 0.2)"
  using do_step_InrD [OF assms] do_step_Inr [of rk4 s system] assms by simp

lemma stepped_fields:
  "state (stepped rk4 s system p) = candidate_B rk4 s system"
  "time (stepped rk4 s system p) = time s + time_delta s"
  "tollerance (stepped rk4 s system p) = tollerance s"
  "time_delta (stepped rk4 s system p) = 0.9 * time_delta s * min (max p 0.3) 1.5"
  by (simp_all add: stepped_def)

lemma do_step_tollerance: "do_step rk4 s system = Inr s' \<Longrightarrow> tollerance s' = tollerance s"
  by (drule do_step_sound) (simp only: stepped_fields)

lemma do_step_time: "do_step rk4 s system = Inr s' \<Longrightarrow> time s' = time s + time_delta s"
  by (drule do_step_sound) (simp only: stepped_fields)

lemma keeps_size_candidates:
  "keeps_size rk4 system \<Longrightarrow> length (candidate_B rk4 s system) \<le> length (candidate_A rk4 s system)"
  by (simp add: keeps_size_def candidate_A_def candidate_B_def split: prod.splits)
     (metis snd_conv order_refl)

subsection \<open>Runs\<close>

lemma run_steps_returns:
  "\<forall>system \<in> set systems. keeps_size rk4 system \<Longrightarrow> 0 \<le> tollerance s \<Longrightarrow>
     \<exists>s'. run_steps rk4 s systems = Inr s'"
proof (induction systems arbitrary: s)
  case Nil
  then show ?case by simp
next
  case (Cons system systems)
  then have ks: "keeps_size rk4 system" and rest: "\<forall>system \<in> set systems. keeps_size rk4 system"
    by simp_all
  from do_step_Inr [OF keeps_size_candidates [OF ks] Cons.prems(2)]
  obtain s1 where s1: "do_step rk4 s system = Inr s1" by blast
  then have "0 \<le> tollerance s1" using Cons.prems(2) by (simp add: do_step_tollerance)
  from Cons.IH [OF rest this] s1 show ?case by simp
qed

lemma run_steps_time:
  "run_steps rk4 s systems = Inr s' \<Longrightarrow>
     time s' = foldl (+) (time s) (step_sizes rk4 s systems) \<and>
     length (step_sizes rk4 s systems) = length systems"
proof (induction systems arbitrary: s)
  case Nil
  then show ?case by simp
next
  case (Cons system systems)
  then show ?case
    by (auto split: sum.splits dest: do_step_time)
qed

lemma foldl_plus_sum_list: "foldl (+) a xs = a + sum_list xs"
  for a :: real
  by (induction xs arbitrary: a) simp_all

lemma perform_tollerance: "perform rk4 call_op s c = Inr s' \<Longrightarrow> tollerance s' = tollerance s"
  by (cases c) (auto simp: initialize_def do_step_fixed_def do_step_tollerance split: prod.splits)

lemma perform_all_tollerance:
  "perform_all rk4 call_op s cs = Inr s' \<Longrightarrow> tollerance s' = tollerance s"
proof (induction cs arbitrary: s)
  case Nil
  then show ?case by simp
next
  case (Cons c cs)
  then show ?case
    by (auto split: sum.splits dest: perform_tollerance)
qed

subsection \<open>The power term at numbers\<close>

lemma fifth_root_power: "0 \<le> c \<Longrightarrow> (c ^ 5) powr 0.2 = c"
  for c :: real
proof (cases "c = 0")
  case True
  then show ?thesis by simp
next
  case False
  assume "0 \<le> c"
  with False have c: "0 < c" by simp
  have "(c ^ 5) powr 0.2 = (c powr 5) powr 0.2"
    using c by simp
  also have "\<dots> = c powr (5 * 0.2)" by (simp only: powr_powr)
  also have "\<dots> = c" using c by simp
  finally show ?thesis .
qed

lemma clamp_high: "(3 / 2) ^ 5 \<le> x \<Longrightarrow> min (max (x powr 0.2) 0.3) 1.5 = 1.5"
  for x :: real
proof -
  assume le: "(3 / 2) ^ 5 \<le> x"
  have "((3 / 2) ^ 5) powr 0.2 \<le> x powr 0.2"
    using le by (intro powr_mono2) simp_all
  moreover have "((3 / 2) ^ 5) powr 0.2 = (3 / 2 :: real)"
    by (rule fifth_root_power) simp
  ultimately have "3 / 2 \<le> x powr 0.2" by simp
  then show ?thesis by (simp add: min_def max_def)
qed

subsection \<open>The controller on the Euler stepper\<close>

lemma growing_A: "candidate_A euler_call growing growth = [8, 16]"
  by (simp add: candidate_A_def euler_call_def growing_def initialize_def make_stepper_adaptive_rk4_def growth_def)

lemma growing_B: "candidate_B euler_call growing growth = [9, 18]"
  by (simp add: candidate_B_def euler_call_def growing_def initialize_def make_stepper_adaptive_rk4_def growth_def)

lemma growing_err: "max_abs_diff [9, 18] [8, 16] = 2"
  by (simp add: max_abs_diff_def lessThan_Suc numeral_2_eq_2)

lemma growing_len:
  "length (candidate_B euler_call growing growth) \<le> length (candidate_A euler_call growing growth)"
  by (simp add: growing_A growing_B)

lemma growing_tol: "0 \<le> tollerance growing"
  by (simp add: growing_def initialize_def make_stepper_adaptive_rk4_def)

lemma growing_clamp: "min (max ((tollerance growing / (2 * floor_error 2)) powr 0.2) 0.3) 1.5 = 1"
  by (simp add: growing_def initialize_def make_stepper_adaptive_rk4_def floor_error_def)

lemma growing_step:
  "do_step euler_call growing growth = Inr (growing\<lparr>state := [9, 18], time := 1, time_delta := 9 / 10\<rparr>)"
proof -
  have "do_step euler_call growing growth =
      Inr (stepped euler_call growing growth ((tollerance growing / (2 * floor_error 2)) powr 0.2))"
    using do_step_Inr [OF growing_len growing_tol] by (simp only: growing_A growing_B growing_err)
  also have "stepped euler_call growing growth ((tollerance growing / (2 * floor_error 2)) powr 0.2)
     = growing\<lparr>state := [9, 18], time := 1, time_delta := 9 / 10\<rparr>"
    unfolding stepped_def growing_clamp
    by (simp add: growing_B) (simp add: growing_def initialize_def make_stepper_adaptive_rk4_def euler_call_def growth_def)
  finally show ?thesis .
qed

lemma resting_A: "candidate_A euler_call resting still = [1, 2]"
  by (simp add: candidate_A_def euler_call_def resting_def initialize_def make_stepper_adaptive_rk4_def still_def)

lemma resting_B: "candidate_B euler_call resting still = [1, 2]"
  by (simp add: candidate_B_def euler_call_def resting_def initialize_def make_stepper_adaptive_rk4_def still_def)

lemma resting_len:
  "length (candidate_B euler_call resting still) \<le> length (candidate_A euler_call resting still)"
  by (simp add: resting_A resting_B)

lemma resting_tol: "0 \<le> tollerance resting"
  by (simp add: resting_def initialize_def make_stepper_adaptive_rk4_def default_tollerance_def)

lemma resting_clamp: "min (max ((tollerance resting / (2 * (1 / 10 ^ 15))) powr 0.2) 0.3) 1.5 = 1.5"
  by (rule clamp_high)
     (simp add: resting_def initialize_def make_stepper_adaptive_rk4_def default_tollerance_def power_divide)

lemma keeps_size_euler_still: "keeps_size euler_call still"
  by (simp add: keeps_size_def euler_call_def still_def)

lemma resting_step:
  "do_step euler_call resting still = Inr (resting\<lparr>time := 1 / 1000, time_delta := 27 / 20000\<rparr>)"
proof -
  have z: "max_abs_diff (candidate_B euler_call resting still) (candidate_A euler_call resting still) = 0"
    by (rule max_abs_diff_zero) (simp add: resting_A resting_B)
  have f: "floor_error 0 = 1 / 10 ^ 15" by (simp add: floor_error_def)
  have "do_step euler_call resting still =
      Inr (stepped euler_call resting still ((tollerance resting / (2 * (1 / 10 ^ 15))) powr 0.2))"
    using do_step_Inr [OF resting_len resting_tol] by (simp only: z f)
  also have "stepped euler_call resting still ((tollerance resting / (2 * (1 / 10 ^ 15))) powr 0.2)
     = resting\<lparr>time := 1 / 1000, time_delta := 27 / 20000\<rparr>"
    unfolding stepped_def resting_clamp
    by (simp add: resting_B) (simp add: resting_def initialize_def make_stepper_adaptive_rk4_def euler_call_def still_def)
  finally show ?thesis .
qed

section \<open>Facts about the trapezoidal stepper\<close>

lemma accumulate_operation_Inr:
  "length y \<le> length x0 \<Longrightarrow> length y \<le> length x1 \<Longrightarrow>
   \<exists>r. accumulate_operation y op a0 x0 a1 x1 = Inr r \<and> length r = length y \<and>
     (\<forall>i<length y. r ! i = y ! i + (op a0 (x0 ! i) + op a1 (x1 ! i)))"
proof (induction y op a0 x0 a1 x1 rule: accumulate_operation.induct)
  case (1 op a0 x0 a1 x1)
  then show ?case by simp
next
  case (2 y ys op a0 u us a1 v vs)
  then obtain r where r: "accumulate_operation ys op a0 us a1 vs = Inr r" "length r = length ys"
    "\<forall>i<length ys. r ! i = ys ! i + (op a0 (us ! i) + op a1 (vs ! i))"
    by auto
  then show ?case by (auto simp: nth_Cons split: nat.splits)
next
  case (3 y ys op a0 a1 x1)
  then show ?case by simp
next
  case (4 y ys op a0 u us a1)
  then show ?case by simp
qed

lemma trapezoidal_do_step_Inr:
  assumes "length x \<le> length (system x (m_dxdt_start s) t)"
    and "length x \<le> length (system x (m_dxdt_end s) (t + dt))"
  shows "\<exists>x'. trapezoidal_do_step s system x t dt =
        Inr (s\<lparr>m_dxdt_start := system x (m_dxdt_start s) t,
               m_dxdt_end := system x (m_dxdt_end s) (t + dt),
               m_steps := m_steps s + 1\<rparr>, x') \<and>
      accumulate_operation x (*) (0.5 * dt) (system x (m_dxdt_start s) t)
        (0.5 * dt) (system x (m_dxdt_end s) (t + dt)) = Inr x' \<and>
      length x' = length x \<and>
      (\<forall>i<length x. x' ! i =
          x ! i + (0.5 * dt * system x (m_dxdt_start s) t ! i +
                   0.5 * dt * system x (m_dxdt_end s) (t + dt) ! i))"
proof -
  from accumulate_operation_Inr [OF assms, of "(*)" "0.5 * dt" "0.5 * dt"]
  obtain r where r: "accumulate_operation x (*) (0.5 * dt) (system x (m_dxdt_start s) t)
        (0.5 * dt) (system x (m_dxdt_end s) (t + dt)) = Inr r"
    and len: "length r = length x"
    and nth: "\<forall>i<length x. r ! i =
          x ! i + (0.5 * dt * system x (m_dxdt_start s) t ! i +
                   0.5 * dt * system x (m_dxdt_end s) (t + dt) ! i)"
    by blast
  have "trapezoidal_do_step s system x t dt =
        Inr (s\<lparr>m_dxdt_start := system x (m_dxdt_start s) t,
               m_dxdt_end := system x (m_dxdt_end s) (t + dt),
               m_steps := m_steps s + 1\<rparr>, r)"
    unfolding trapezoidal_do_step_def Let_def r by simp
  with r len nth show ?thesis by (intro exI conjI)
qed

lemma ramp_start: "length [1::real] \<le> length (ramp [1] (m_dxdt_start (adjust_size True make_stepper_trapezoidal [1])) 0)"
  by (simp add: ramp_def)

lemma ramp_end: "length [1::real] \<le> length (ramp [1] (m_dxdt_end (adjust_size True make_stepper_trapezoidal [1])) (0 + 2))"
  by (simp add: ramp_def)

section \<open>Facts about binary64 arithmetic\<close>

subsection \<open>Rounding\<close>

lemma round_even_near: "\<bar>of_int (round_even q) - q\<bar> \<le> 1 / 2"
  unfolding round_even_def Let_def by (auto simp: abs_if) linarith+

lemma round_even_nonneg: "0 \<le> q \<Longrightarrow> 0 \<le> round_even q"
  unfolding round_even_def Let_def by auto

lemma round_even_ge: "of_int n - 1 / 2 < q \<Longrightarrow> n \<le> round_even q"
proof -
  assume a: "of_int n - 1 / 2 < q"
  have "\<bar>of_int (round_even q) - q\<bar> \<le> 1 / 2" by (rule round_even_near)
  then have "q - 1 / 2 \<le> of_int (round_even q)" by linarith
  with a have "of_int n - 1 < (of_int (round_even q) :: real)" by linarith
  then have "of_int (n - 1) < (of_int (round_even q) :: real)" by simp
  then have "n - 1 < round_even q" by (simp only: of_int_less_iff)
  then show ?thesis by simp
qed

lemma round_even_le: "q < of_int n + 1 / 2 \<Longrightarrow> round_even q \<le> n"
proof -
  assume a: "q < of_int n + 1 / 2"
  have "\<bar>of_int (round_even q) - q\<bar> \<le> 1 / 2" by (rule round_even_near)
  then have "of_int (round_even q) \<le> q + 1 / 2" by linarith
  with a have "(of_int (round_even q) :: real) < of_int n + 1" by linarith
  then have "(of_int (round_even q) :: real) < of_int (n + 1)" by simp
  then have "round_even q < n + 1" by (simp only: of_int_less_iff)
  then show ?thesis by simp
qed

lemma round_even_zero: "0 \<le> q \<Longrightarrow> q < 1 / 2 \<Longrightarrow> round_even q = 0"
  using round_even_nonneg [of q] round_even_le [of q 0] by simp

lemma ulp_pos: "0 < ulp x"
  by (simp add: ulp_def)

lemma two_powr_int: "2 powr (of_int k) = (2::real) powi k"
  by (rule powr_real_of_int') simp_all

lemma floor_log2_iff:
  "0 < x \<Longrightarrow> \<lfloor>log 2 x\<rfloor> = k \<longleftrightarrow> 2 powi k \<le> x \<and> x < 2 powi (k + 1)"
  using floor_log_eq_powr_iff [of x 2 k] two_powr_int [of k] two_powr_int [of "k + 1"]
  by simp

lemma expo_eqI:
  assumes "2 powi e \<le> \<bar>x\<bar>" and "\<bar>x\<bar> < 2 powi (e + 1)" and "- 1022 \<le> e"
  shows "expo x = e"
proof -
  have "0 < (2::real) powi e" by simp
  with assms(1) have pos: "0 < \<bar>x\<bar>" by linarith
  have "\<lfloor>log 2 \<bar>x\<bar>\<rfloor> = e"
    using floor_log2_iff [OF pos, of e] assms by simp
  then show ?thesis using assms(3) by (simp add: expo_def)
qed

lemma expo_small:
  assumes "x \<noteq> 0" and "\<bar>x\<bar> < 2 powi (- 1021)"
  shows "expo x = - 1022"
proof -
  from assms(1) have pos: "0 < \<bar>x\<bar>" by simp
  define k where "k = \<lfloor>log 2 \<bar>x\<bar>\<rfloor>"
  have "2 powi k \<le> \<bar>x\<bar>" using floor_log2_iff [OF pos, of k] k_def by simp
  with assms(2) have "(2::real) powi k < 2 powi (- 1021)" by linarith
  then have "k < - 1021"
    using power_int_increasing [of "- 1021" k "2::real"] by (cases "k < - 1021") simp_all
  then show ?thesis by (simp add: expo_def k_def [symmetric])
qed

lemma expo_ge: "- 1022 \<le> expo x"
  by (simp add: expo_def)

lemma expo_upper: "x \<noteq> 0 \<Longrightarrow> \<bar>x\<bar> < 2 powi (expo x + 1)"
proof -
  assume "x \<noteq> 0"
  then have pos: "0 < \<bar>x\<bar>" by simp
  define k where "k = \<lfloor>log 2 \<bar>x\<bar>\<rfloor>"
  have "\<bar>x\<bar> < 2 powi (k + 1)" using floor_log2_iff [OF pos, of k] k_def by simp
  also have "(2::real) powi (k + 1) \<le> 2 powi (expo x + 1)"
    by (intro power_int_increasing) (simp_all add: expo_def k_def)
  finally show ?thesis .
qed

lemma expo_lower: "2 powi (- 1022) \<le> \<bar>x\<bar> \<Longrightarrow> 2 powi (expo x) \<le> \<bar>x\<bar>"
proof -
  assume n: "2 powi (- 1022) \<le> \<bar>x\<bar>"
  have "0 < (2::real) powi (- 1022)" by simp
  with n have pos: "0 < \<bar>x\<bar>" by linarith
  define k where "k = \<lfloor>log 2 \<bar>x\<bar>\<rfloor>"
  have k: "2 powi k \<le> \<bar>x\<bar>" using floor_log2_iff [OF pos, of k] k_def by simp
  show ?thesis
  proof (cases "- 1022 \<le> k")
    case True
    then have "expo x = k" by (simp add: expo_def k_def)
    with k show ?thesis by simp
  next
    case False
    then have "expo x = - 1022" by (simp add: expo_def k_def [symmetric])
    with n show ?thesis by simp
  qed
qed

text \<open>The error of one rounding, absolute and, for a number that is not subnormal, relative.\<close>

lemma fl_error: "\<bar>fl x - x\<bar> \<le> ulp x / 2"
proof (cases "x = 0")
  case True
  then show ?thesis using ulp_pos [of 0] by (simp add: fl_def)
next
  case False
  have u: "0 < ulp x" by (rule ulp_pos)
  have "\<bar>of_int (round_even (x / ulp x)) - x / ulp x\<bar> \<le> 1 / 2" by (rule round_even_near)
  then have "\<bar>of_int (round_even (x / ulp x)) - x / ulp x\<bar> * ulp x \<le> 1 / 2 * ulp x"
    using u by (intro mult_right_mono) simp_all
  moreover have "(of_int (round_even (x / ulp x)) - x / ulp x) * ulp x
      = of_int (round_even (x / ulp x)) * ulp x - x"
    using u by (simp add: left_diff_distrib)
  then have "\<bar>of_int (round_even (x / ulp x)) - x / ulp x\<bar> * ulp x
      = \<bar>of_int (round_even (x / ulp x)) * ulp x - x\<bar>"
    using u by (metis abs_mult abs_of_pos)
  ultimately show ?thesis using False by (simp add: fl_def)
qed

lemma ulp_normal: "2 powi (- 1022) \<le> \<bar>x\<bar> \<Longrightarrow> ulp x \<le> \<bar>x\<bar> / 2 ^ 52"
proof -
  assume "2 powi (- 1022) \<le> \<bar>x\<bar>"
  then have "2 powi (expo x) \<le> \<bar>x\<bar>" by (rule expo_lower)
  moreover have "ulp x = 2 powi (expo x) / 2 ^ 52"
    by (simp add: ulp_def power_int_diff)
  ultimately show ?thesis by (simp add: divide_right_mono)
qed

lemma fl_relative:
  assumes "2 powi (- 1022) \<le> \<bar>x\<bar>"
  shows "\<bar>fl x - x\<bar> \<le> \<bar>x\<bar> / 2 ^ 53"
proof -
  have "\<bar>fl x - x\<bar> \<le> ulp x / 2" by (rule fl_error)
  also have "\<dots> \<le> (\<bar>x\<bar> / 2 ^ 52) / 2" using ulp_normal [OF assms] by simp
  also have "\<dots> = \<bar>x\<bar> / 2 ^ 53" by simp
  finally show ?thesis .
qed

lemma fl_ratio:
  assumes "2 powi (- 1022) \<le> \<bar>x\<bar>"
  shows "1 - 1 / 2 ^ 53 \<le> fl x / x \<and> fl x / x \<le> 1 + 1 / 2 ^ 53"
proof -
  have "0 < (2::real) powi (- 1022)" by simp
  with assms have pos: "0 < \<bar>x\<bar>" by linarith
  then have nz: "x \<noteq> 0" by simp
  have "\<bar>fl x - x\<bar> \<le> \<bar>x\<bar> / 2 ^ 53" by (rule fl_relative [OF assms])
  then have "\<bar>fl x - x\<bar> / \<bar>x\<bar> \<le> (\<bar>x\<bar> / 2 ^ 53) / \<bar>x\<bar>"
    using pos by (intro divide_right_mono) simp_all
  then have "\<bar>(fl x - x) / x\<bar> \<le> 1 / 2 ^ 53"
    using pos by (simp add: abs_divide)
  moreover have "(fl x - x) / x = fl x / x - 1"
    using nz by (simp add: diff_divide_distrib)
  ultimately have "\<bar>fl x / x - 1\<bar> \<le> 1 / 2 ^ 53" by simp
  then have "fl x / x - 1 \<le> 1 / 2 ^ 53" and "- (fl x / x - 1) \<le> 1 / 2 ^ 53"
    by (simp_all only: abs_le_iff)
  then show ?thesis by linarith
qed

lemma fl_abs_lower:
  assumes "2 powi (- 1022) \<le> \<bar>x\<bar>"
  shows "\<bar>x\<bar> * (1 - 1 / 2 ^ 53) \<le> \<bar>fl x\<bar>"
proof -
  have "\<bar>fl x - x\<bar> \<le> \<bar>x\<bar> / 2 ^ 53" by (rule fl_relative [OF assms])
  then have "\<bar>x\<bar> - \<bar>x\<bar> / 2 ^ 53 \<le> \<bar>fl x\<bar>" by linarith
  then show ?thesis by (simp add: right_diff_distrib)
qed

lemma fl_nonneg: "0 \<le> x \<Longrightarrow> 0 \<le> fl x"
  using ulp_pos [of x] by (simp add: fl_def round_even_nonneg)

lemma fl_zero: "fl 0 = 0"
  by (simp add: fl_def)

text \<open>A rounding cannot take a number above half the least double to zero.\<close>

lemma fl_normal_lower:
  assumes "2 powi (- 1022) \<le> x"
  shows "2 powi (expo x) \<le> fl x"
proof -
  have p: "0 < (2::real) powi (- 1022)" by simp
  with assms have pos: "0 < x" by linarith
  then have ax: "\<bar>x\<bar> = x" by simp
  have lo: "2 powi (expo x) \<le> x" using expo_lower [of x] assms ax by simp
  have u: "ulp x = 2 powi (expo x) / 2 ^ 52" by (simp add: ulp_def power_int_diff)
  have up: "0 < ulp x" by (rule ulp_pos)
  have "2 powi (expo x) / ulp x \<le> x / ulp x" using lo up by (intro divide_right_mono) simp_all
  moreover have "2 powi (expo x) / ulp x = (2::real) ^ 52" by (simp add: u)
  ultimately have "(2::real) ^ 52 \<le> x / ulp x" by simp
  moreover note this
  moreover have "(of_int (2 ^ 52) :: real) = 2 ^ 52" by simp
  ultimately have "of_int (2 ^ 52) - 1 / 2 < x / ulp x" by linarith
  then have "2 ^ 52 \<le> round_even (x / ulp x)" by (rule round_even_ge)
  then have "(of_int (2 ^ 52) :: real) \<le> of_int (round_even (x / ulp x))"
    by (simp only: of_int_le_iff)
  then have "of_int (2 ^ 52) * ulp x \<le> of_int (round_even (x / ulp x)) * ulp x"
    using up by (intro mult_right_mono) simp_all
  moreover have "of_int (2 ^ 52) * ulp x = 2 powi (expo x)" by (simp add: u)
  ultimately show ?thesis using pos by (simp add: fl_def)
qed

lemma fl_small_lower:
  assumes "0 < x" and "x < 2 powi (- 1021)" and "of_int n - 1 / 2 < x * 2 ^ 1074"
  shows "of_int n / 2 ^ 1074 \<le> fl x"
proof -
  have nz: "x \<noteq> 0" using assms(1) by simp
  have e: "expo x = - 1022" using expo_small [OF nz] assms(1,2) by simp
  have u: "ulp x = 1 / 2 ^ 1074" by (simp add: ulp_def e inverse_eq_divide)
  have "n \<le> round_even (x / ulp x)" using assms(3) by (intro round_even_ge) (simp add: u)
  then have "(of_int n :: real) \<le> of_int (round_even (x / ulp x))" by (simp only: of_int_le_iff)
  then have "of_int n * ulp x \<le> of_int (round_even (x / ulp x)) * ulp x"
    using ulp_pos [of x] by (intro mult_right_mono) simp_all
  then show ?thesis using nz by (simp add: fl_def u)
qed

lemma fl_ge_min:
  assumes "1 / 2 ^ 1075 < x"
  shows "1 / 2 ^ 1074 \<le> fl x"
proof (cases "x < 2 powi (- 1021)")
  case True
  have z: "(0::real) < 1 / 2 ^ 1075" by simp
  have pos: "0 < x" by (rule less_trans [OF z assms])
  have "of_int 1 - 1 / 2 < x * 2 ^ 1074" using assms by (simp add: field_simps)
  from fl_small_lower [OF pos True this] show ?thesis by simp
next
  case False
  then have n: "2 powi (- 1021) \<le> x" by simp
  have "(2::real) powi (- 1022) \<le> 2 powi (- 1021)" by (intro power_int_increasing) simp_all
  with n have "2 powi (- 1022) \<le> x" by linarith
  then have "2 powi (expo x) \<le> fl x" by (rule fl_normal_lower)
  moreover have "(2::real) powi (- 1074) \<le> 2 powi (expo x)"
    using expo_ge [of x] by (intro power_int_increasing) simp_all
  moreover have "(2::real) powi (- 1074) = 1 / 2 ^ 1074" by (simp add: inverse_eq_divide)
  ultimately show ?thesis by simp
qed

lemma fl_ge_two_min:
  assumes "3 / 2 ^ 1075 < x"
  shows "2 / 2 ^ 1074 \<le> fl x"
proof (cases "x < 2 powi (- 1021)")
  case True
  have z: "(0::real) < 3 / 2 ^ 1075" by simp
  have pos: "0 < x" by (rule less_trans [OF z assms])
  have "of_int 2 - 1 / 2 < x * 2 ^ 1074" using assms by (simp add: field_simps)
  from fl_small_lower [OF pos True this] show ?thesis by simp
next
  case False
  then have n: "2 powi (- 1021) \<le> x" by simp
  have "(2::real) powi (- 1022) \<le> 2 powi (- 1021)" by (intro power_int_increasing) simp_all
  with n have "2 powi (- 1022) \<le> x" by linarith
  then have "2 powi (expo x) \<le> fl x" by (rule fl_normal_lower)
  moreover have "(2::real) powi (- 1073) \<le> 2 powi (expo x)"
    using expo_ge [of x] by (intro power_int_increasing) simp_all
  moreover have "(2::real) powi (- 1073) = 2 / 2 ^ 1074" by (simp add: inverse_eq_divide)
  ultimately show ?thesis by simp
qed

subsection \<open>Rounding at numbers\<close>

text \<open>
  With the exponent and the rounded significand at hand, \<open>fl\<close> is evaluated at a number: the
  literals of the source come first.
\<close>

lemma fl_normal_eval:
  assumes "2 powi e \<le> \<bar>x\<bar>" and "\<bar>x\<bar> < 2 powi (e + 1)" and "- 1022 \<le> e"
    and "round_even (x / 2 powi (e - 52)) = n"
  shows "fl x = of_int n * 2 powi (e - 52)"
proof -
  have "0 < (2::real) powi e" by simp
  with assms(1) have "0 < \<bar>x\<bar>" by linarith
  then have "x \<noteq> 0" by simp
  moreover have "expo x = e" by (rule expo_eqI [OF assms(1,2,3)])
  ultimately show ?thesis using assms(4) by (simp add: fl_def ulp_def)
qed

lemma fl_subnormal_eval:
  assumes "x \<noteq> 0" and "\<bar>x\<bar> < 2 powi (- 1021)"
    and "round_even (x / 2 powi (- 1074)) = n"
  shows "fl x = of_int n * 2 powi (- 1074)"
  using assms expo_small [OF assms(1,2)] by (simp add: fl_def ulp_def)

lemma fl64_eval: "fl x = v \<Longrightarrow> \<bar>v\<bar> \<le> 2 ^ 1023 \<Longrightarrow> fl64 x = Inr v"
proof -
  assume v: "fl x = v" and b: "\<bar>v\<bar> \<le> 2 ^ 1023"
  have "(2::real) ^ 1023 \<le> max_double" by (simp add: max_double_def)
  with b have "\<bar>v\<bar> \<le> max_double" by (rule order_trans)
  with v show ?thesis by (simp add: fl64_def)
qed

lemma fl64_Inr: "fl64 x = Inr r \<longleftrightarrow> r = fl x \<and> \<bar>fl x\<bar> \<le> max_double"
  by (auto simp: fl64_def)

lemma and_then_Inr: "and_then m f = Inr r \<longleftrightarrow> (\<exists>v. m = Inr v \<and> f v = Inr r)"
  by (cases m) (simp_all add: and_then_def)

lemma c09: "fl (9 / 10) = 8106479329266893 / 2 ^ 53"
  using fl_normal_eval [of "- 1" "9 / 10" 8106479329266893]
  by (simp add: round_even_def Let_def)

lemma c03: "fl (3 / 10) = 5404319552844595 / 2 ^ 54"
  using fl_normal_eval [of "- 2" "3 / 10" 5404319552844595]
  by (simp add: round_even_def Let_def)

lemma c02: "fl (2 / 10) = 7205759403792794 / 2 ^ 55"
  using fl_normal_eval [of "- 3" "2 / 10" 7205759403792794]
  by (simp add: round_even_def Let_def)

lemma c15: "fl (1 / 10 ^ 15) = 5070602400912918 / 2 ^ 102"
  using fl_normal_eval [of "- 50" "1 / 10 ^ 15" 5070602400912918]
  by (simp add: round_even_def Let_def)

lemma tol64: "fl default_tollerance = 7378697629483821 / 2 ^ 66"
  using fl_normal_eval [of "- 14" "1 / 10000" 7378697629483821]
  by (simp add: round_even_def Let_def default_tollerance_def)

subsection \<open>The size of the step after a call\<close>

text \<open>
  A call that returns has stored \<open>fl (fl (fl 0.9 * dt) * c)\<close> for a factor \<open>c\<close> between
  the double \<open>0.3\<close> and \<open>1.5\<close>, whatever \<open>std::pow\<close> and the steppers did.
\<close>

lemma do_step64_time_delta:
  assumes "do_step64 pw rk4 s system = Inr s'"
  shows "\<exists>c. fl 0.3 \<le> c \<and> c \<le> 1.5 \<and> time_delta s' = fl (fl (fl 0.9 * time_delta s) * c)"
proof -
  from assms obtain p a dt' k1 k2' x_new time'
    where a: "mul64 (fl 0.9) (time_delta s) = Inr a"
      and dt': "mul64 a (min (max p (fl 0.3)) 1.5) = Inr dt'"
      and s': "s' = s\<lparr>stepper1 := k1, stepper2 := k2', state := x_new, time := time', time_delta := dt'\<rparr>"
    unfolding do_step64_def Let_def case_prod_beta and_then_Inr
    by blast
  have c3: "fl 0.3 \<le> (1.5::real)" by (simp add: c03)
  have "fl 0.3 \<le> min (max p (fl 0.3)) 1.5" using c3 by (simp add: min_def max_def)
  moreover have "min (max p (fl 0.3)) 1.5 \<le> (1.5::real)" by simp
  moreover have "time_delta s' = fl (fl (fl 0.9 * time_delta s) * min (max p (fl 0.3)) 1.5)"
    using a dt' s' by (auto simp: mul64_def fl64_Inr)
  ultimately show ?thesis by blast
qed

lemma step_ratio_rounded:
  assumes c: "fl 0.3 \<le> c" "c \<le> 1.5"
    and dt: "2 powi (- 1020) \<le> \<bar>dt\<bar>"
  shows "0.27 * (1 - 1 / 2 ^ 51) \<le> fl (fl (fl 0.9 * dt) * c) / dt \<and>
         fl (fl (fl 0.9 * dt) * c) / dt \<le> 1.35 * (1 + 1 / 2 ^ 51)"
proof -
  define c9 :: real where "c9 = 8106479329266893 / 2 ^ 53"
  define c3 :: real where "c3 = 5404319552844595 / 2 ^ 54"
  define e :: real where "e = 1 / 2 ^ 53"
  have f9: "fl 0.9 = c9" using c09 by (simp add: c9_def)
  have f3: "fl 0.3 = c3" using c03 by (simp add: c3_def)
  have c3c: "c3 \<le> c" using c(1) f3 by simp
  have c3pos: "0 < c3" by (simp add: c3_def)
  have cpos: "0 < c" using c3c c3pos by linarith
  have c9pos: "0 < c9" by (simp add: c9_def)
  have m: "(2::real) powi (- 1020) = 4 * 2 powi (- 1022)"
    by (simp add: power_int_minus field_simps)
  have pw: "0 < (2::real) powi (- 1022)" by simp
  from dt pw m have dtnz: "dt \<noteq> 0" by auto
  define a0 where "a0 = c9 * dt"
  define a where "a = fl a0"
  define b0 where "b0 = a * c"
  define d' where "d' = fl b0"
  have a0abs: "\<bar>a0\<bar> = c9 * \<bar>dt\<bar>" using c9pos by (simp add: a0_def abs_mult)
  have "c9 * (4 * 2 powi (- 1022)) \<le> c9 * \<bar>dt\<bar>"
    using dt m c9pos by (intro mult_left_mono) simp_all
  then have a0big: "(36 / 10) * 2 powi (- 1022) \<le> \<bar>a0\<bar>"
    using pw a0abs by (simp add: c9_def) 
  then have a0n: "2 powi (- 1022) \<le> \<bar>a0\<bar>" using pw by linarith
  have r1: "1 - e \<le> a / a0" "a / a0 \<le> 1 + e"
    using fl_ratio [OF a0n] by (simp_all add: a_def e_def)
  have "\<bar>a0\<bar> * (1 - e) \<le> \<bar>a\<bar>" using fl_abs_lower [OF a0n] by (simp add: a_def e_def)
  moreover have "(36 / 10) * 2 powi (- 1022) * (1 - e) \<le> \<bar>a0\<bar> * (1 - e)"
    using a0big by (intro mult_right_mono) (simp_all add: e_def)
  ultimately have abig: "(35 / 10) * 2 powi (- 1022) \<le> \<bar>a\<bar>"
    using pw by (simp add: e_def)
  have b0abs: "\<bar>b0\<bar> = \<bar>a\<bar> * c" using cpos by (simp add: b0_def abs_mult)
  have "(35 / 10) * 2 powi (- 1022) * c3 \<le> \<bar>a\<bar> * c"
    using abig c3c c3pos pw by (intro mult_mono) simp_all
  then have b0n: "2 powi (- 1022) \<le> \<bar>b0\<bar>"
    using pw b0abs by (simp add: c3_def)
  have r2: "1 - e \<le> d' / b0" "d' / b0 \<le> 1 + e"
    using fl_ratio [OF b0n] by (simp_all add: d'_def e_def)
  have anz: "a \<noteq> 0" using abig pw by auto
  have a0nz: "a0 \<noteq> 0" using a0n pw by auto
  have b0nz: "b0 \<noteq> 0" using b0n pw by auto
  have ratio: "d' / dt = (d' / b0) * (c * ((a / a0) * c9))"
    using anz a0nz b0nz dtnz cpos c9pos by (simp add: b0_def a0_def)
  have epos: "0 \<le> 1 - e" by (simp add: e_def)
  have e1pos: "0 \<le> 1 + e" by (simp add: e_def)
  have cnn: "0 \<le> c" using cpos by simp
  have c9nn: "0 \<le> c9" using c9pos by simp
  have c32: "c \<le> 3 / 2" using c(2) by simp
  have rpos: "0 \<le> a / a0" using r1(1) epos by linarith
  have r2pos: "0 \<le> d' / b0" using r2(1) epos by linarith
  have l1: "(1 - e) * c9 \<le> (a / a0) * c9" by (rule mult_right_mono [OF r1(1) c9nn])
  have p1: "0 \<le> (1 - e) * c9" by (rule mult_nonneg_nonneg [OF epos c9nn])
  have l2: "c3 * ((1 - e) * c9) \<le> c * ((a / a0) * c9)" by (rule mult_mono [OF c3c l1 cnn p1])
  have c3nn: "0 \<le> c3" using c3pos by simp
  have p2: "0 \<le> c3 * ((1 - e) * c9)" by (rule mult_nonneg_nonneg [OF c3nn p1])
  have l3: "(1 - e) * (c3 * ((1 - e) * c9)) \<le> (d' / b0) * (c * ((a / a0) * c9))"
    by (rule mult_mono [OF r2(1) l2 r2pos p2])
  have u1: "(a / a0) * c9 \<le> (1 + e) * c9" by (rule mult_right_mono [OF r1(2) c9nn])
  have q1: "0 \<le> (a / a0) * c9" by (rule mult_nonneg_nonneg [OF rpos c9nn])
  have q0: "(0::real) \<le> 3 / 2" by simp
  have u2: "c * ((a / a0) * c9) \<le> (3 / 2) * ((1 + e) * c9)" by (rule mult_mono [OF c32 u1 q0 q1])
  have q2: "0 \<le> c * ((a / a0) * c9)" by (rule mult_nonneg_nonneg [OF cnn q1])
  have u3: "(d' / b0) * (c * ((a / a0) * c9)) \<le> (1 + e) * ((3 / 2) * ((1 + e) * c9))"
    by (rule mult_mono [OF r2(2) u2 e1pos q2])
  have lo: "0.27 * (1 - 1 / 2 ^ 51) \<le> (1 - e) * (c3 * ((1 - e) * c9))"
    by (simp add: e_def c3_def c9_def)
  have hi: "(1 + e) * ((3 / 2) * ((1 + e) * c9)) \<le> 1.35 * (1 + 1 / 2 ^ 51)"
    by (simp add: e_def c9_def)
  have d: "fl (fl (fl 0.9 * dt) * c) = d'"
    by (simp add: d'_def b0_def a_def a0_def f9)
  from lo l3 have "0.27 * (1 - 1 / 2 ^ 51) \<le> (d' / b0) * (c * ((a / a0) * c9))"
    by (rule order_trans)
  moreover from u3 hi have "(d' / b0) * (c * ((a / a0) * c9)) \<le> 1.35 * (1 + 1 / 2 ^ 51)"
    by (rule order_trans)
  ultimately show ?thesis by (simp only: d ratio [symmetric])
qed

lemma step_size_rounded_nonneg:
  assumes "0 \<le> dt" and "fl 0.3 \<le> c"
  shows "0 \<le> fl (fl (fl 0.9 * dt) * c)"
proof -
  have "0 \<le> fl 0.9" by (simp add: c09)
  then have "0 \<le> fl (fl 0.9 * dt)" using assms(1) by (intro fl_nonneg) simp
  moreover have "0 \<le> c" using assms(2) by (simp add: c03)
  ultimately show ?thesis by (intro fl_nonneg) simp
qed

lemma step_size_rounded_pos:
  assumes "1 / 2 ^ 1073 \<le> dt" and "fl 0.3 \<le> c"
  shows "0 < fl (fl (fl 0.9 * dt) * c)"
proof -
  have c: "5404319552844595 / 2 ^ 54 \<le> c" using assms(2) by (simp add: c03)
  have "8106479329266893 / 2 ^ 53 * (1 / 2 ^ 1073) \<le> 8106479329266893 / 2 ^ 53 * dt"
    using assms(1) by (intro mult_left_mono) simp_all
  then have "3 / 2 ^ 1075 < fl 0.9 * dt" by (simp add: c09)
  then have a: "2 / 2 ^ 1074 \<le> fl (fl 0.9 * dt)" by (rule fl_ge_two_min)
  have "2 / 2 ^ 1074 * (5404319552844595 / 2 ^ 54) \<le> fl (fl 0.9 * dt) * c"
    using a c by (intro mult_mono) simp_all
  then have "1 / 2 ^ 1075 < fl (fl 0.9 * dt) * c" by simp
  then have g: "1 / 2 ^ 1074 \<le> fl (fl (fl 0.9 * dt) * c)" by (rule fl_ge_min)
  have z: "(0::real) < 1 / 2 ^ 1074" by simp
  show ?thesis by (rule less_le_trans [OF z g])
qed

lemma do_step64_nonneg:
  assumes "do_step64 pw rk4 s system = Inr s'" and "0 \<le> time_delta s"
  shows "0 \<le> time_delta s'"
proof -
  from do_step64_time_delta [OF assms(1)] obtain c
    where "fl 0.3 \<le> c" and "time_delta s' = fl (fl (fl 0.9 * time_delta s) * c)"
    by blast
  then show ?thesis using step_size_rounded_nonneg [OF assms(2)] by simp
qed

lemma do_step64_pos:
  assumes "do_step64 pw rk4 s system = Inr s'" and "1 / 2 ^ 1073 \<le> time_delta s"
  shows "0 < time_delta s'"
proof -
  from do_step64_time_delta [OF assms(1)] obtain c
    where "fl 0.3 \<le> c" and "time_delta s' = fl (fl (fl 0.9 * time_delta s) * c)"
    by blast
  then show ?thesis using step_size_rounded_pos [OF assms(2)] by simp
qed

lemma run_steps64_nonneg:
  "run_steps64 pw rk4 s systems = Inr s' \<Longrightarrow> 0 \<le> time_delta s \<Longrightarrow> 0 \<le> time_delta s'"
proof (induction systems arbitrary: s)
  case Nil
  then show ?case by simp
next
  case (Cons system systems)
  then show ?case
    by (auto split: sum.splits dest: do_step64_nonneg)
qed

subsection \<open>The power at numbers\<close>

lemma two_powi_powr: "((2::real) powi k) powr y = 2 powr (of_int k * y)"
  by (simp only: two_powr_int [symmetric] powr_powr)

lemma pow64_eval:
  assumes "0 < q" and "2 powi (- 1022) \<le> q powr y" and "q powr y \<le> 2 ^ 1000"
  shows "pow64 q y = Inr (fl (q powr y))"
    and "(1 - 1 / 2 ^ 53) * (q powr y) \<le> fl (q powr y)"
    and "fl (q powr y) \<le> (1 + 1 / 2 ^ 53) * (q powr y)"
proof -
  let ?v = "q powr y"
  have p: "0 < (2::real) powi (- 1022)" by simp
  with assms(2) have vpos: "0 < ?v" by linarith
  then have av: "\<bar>?v\<bar> = ?v" by simp
  have n: "2 powi (- 1022) \<le> \<bar>?v\<bar>" using assms(2) av by simp
  have r: "1 - 1 / 2 ^ 53 \<le> fl ?v / ?v" "fl ?v / ?v \<le> 1 + 1 / 2 ^ 53"
    using fl_ratio [OF n] by simp_all
  show lo: "(1 - 1 / 2 ^ 53) * ?v \<le> fl ?v"
    using r(1) vpos by (simp add: pos_le_divide_eq)
  show hi: "fl ?v \<le> (1 + 1 / 2 ^ 53) * ?v"
    using r(2) vpos by (simp add: pos_divide_le_eq)
  have "0 \<le> (1 - 1 / 2 ^ 53) * ?v" using vpos by simp
  with lo have nn: "0 \<le> fl ?v" by linarith
  have "(1 + 1 / 2 ^ 53) * ?v \<le> (1 + 1 / 2 ^ 53) * 2 ^ 1000"
    using assms(3) by (intro mult_left_mono) simp_all
  also have "\<dots> \<le> (2::real) ^ 1023" by simp
  finally have "fl ?v \<le> 2 ^ 1023" using hi by linarith
  with nn have "\<bar>fl ?v\<bar> \<le> 2 ^ 1023" by simp
  then have "fl64 ?v = Inr (fl ?v)" by (intro fl64_eval) simp_all
  then show "pow64 q y = Inr (fl ?v)" using assms(1) by (simp add: pow64_def)
qed

lemma v_three:
  "16 \<le> (50000000000::real) powr (7205759403792794 / 2 ^ 55)"
  "(50000000000::real) powr (7205759403792794 / 2 ^ 55) \<le> 1024"
proof -
  have "(16::real) = (2 powi 32) powr (1 / 8)"
    by (simp only: two_powi_powr) simp
  also have "\<dots> \<le> 50000000000 powr (1 / 8)" by (intro powr_mono2) simp_all
  also have "\<dots> \<le> 50000000000 powr (7205759403792794 / 2 ^ 55)" by (intro powr_mono) simp_all
  finally show "16 \<le> (50000000000::real) powr (7205759403792794 / 2 ^ 55)" .
  have "(50000000000::real) powr (7205759403792794 / 2 ^ 55) \<le> 50000000000 powr (1 / 4)"
    by (intro powr_mono) simp_all
  also have "\<dots> \<le> (2 powi 40) powr (1 / 4)" by (intro powr_mono2) simp_all
  also have "\<dots> = 1024" by (simp only: two_powi_powr) simp
  finally show "(50000000000::real) powr (7205759403792794 / 2 ^ 55) \<le> 1024" .
qed

lemma v_tiny:
  "2 powi (- 240) \<le> (7999999999999999 / 2 ^ 1004 :: real) powr (7205759403792794 / 2 ^ 55)"
  "(7999999999999999 / 2 ^ 1004 :: real) powr (7205759403792794 / 2 ^ 55) \<le> 2 powi (- 118)"
proof -
  let ?q = "7999999999999999 / 2 ^ 1004 :: real"
  have lo: "2 powi (- 960) \<le> ?q" by (simp add: power_int_minus field_simps)
  have hi: "?q \<le> 2 powi (- 944)" by (simp add: power_int_minus field_simps)
  have q1: "?q \<le> 1" by simp
  have q0: "0 \<le> ?q" by simp
  have "((2::real) powi (- 960)) powr (1 / 4) = 2 powr (of_int (- 240))"
    by (simp only: two_powi_powr) simp
  then have "(2::real) powi (- 240) = (2 powi (- 960)) powr (1 / 4)"
    by (simp only: two_powr_int)
  also have "\<dots> \<le> ?q powr (1 / 4)" using lo by (intro powr_mono2) simp_all
  also have "\<dots> \<le> ?q powr (7205759403792794 / 2 ^ 55)" by (rule powr_mono' [OF _ q0 q1]) simp
  finally show "2 powi (- 240) \<le> ?q powr (7205759403792794 / 2 ^ 55)" .
  have "?q powr (7205759403792794 / 2 ^ 55) \<le> ?q powr (1 / 8)" by (rule powr_mono' [OF _ q0 q1]) simp
  also have "\<dots> \<le> (2 powi (- 944)) powr (1 / 8)" using hi by (intro powr_mono2) simp_all
  also have "\<dots> = 2 powr (of_int (- 118))"
    by (simp only: two_powi_powr) simp
  also have "\<dots> = 2 powi (- 118)" by (rule two_powr_int)
  finally show "?q powr (7205759403792794 / 2 ^ 55) \<le> 2 powi (- 118)" .
qed

lemma v_seven:
  "2 powi (- 5) \<le> (4818741309050659 / 2 ^ 71 :: real) powr (7205759403792794 / 2 ^ 55)"
  "(4818741309050659 / 2 ^ 71 :: real) powr (7205759403792794 / 2 ^ 55) \<le> 1 / 4"
proof -
  let ?q = "4818741309050659 / 2 ^ 71 :: real"
  have lo: "2 powi (- 20) \<le> ?q" by (simp add: power_int_minus field_simps)
  have hi: "?q \<le> 2 powi (- 16)" by (simp add: power_int_minus field_simps)
  have q1: "?q \<le> 1" by simp
  have q0: "0 \<le> ?q" by simp
  have "((2::real) powi (- 20)) powr (1 / 4) = 2 powr (of_int (- 5))"
    by (simp only: two_powi_powr) simp
  then have "(2::real) powi (- 5) = (2 powi (- 20)) powr (1 / 4)"
    by (simp only: two_powr_int)
  also have "\<dots> \<le> ?q powr (1 / 4)" using lo by (intro powr_mono2) simp_all
  also have "\<dots> \<le> ?q powr (7205759403792794 / 2 ^ 55)" by (rule powr_mono' [OF _ q0 q1]) simp
  finally show "2 powi (- 5) \<le> ?q powr (7205759403792794 / 2 ^ 55)" .
  have "?q powr (7205759403792794 / 2 ^ 55) \<le> ?q powr (1 / 8)" by (rule powr_mono' [OF _ q0 q1]) simp
  also have "\<dots> \<le> (2 powi (- 16)) powr (1 / 8)" using hi by (intro powr_mono2) simp_all
  also have "\<dots> = 2 powr (of_int (- 2))"
    by (simp only: two_powi_powr) simp
  also have "\<dots> = 2 powi (- 2)" by (rule two_powr_int)
  also have "\<dots> = 1 / 4" by (simp add: inverse_eq_divide)
  finally show "?q powr (7205759403792794 / 2 ^ 55) \<le> 1 / 4" .
qed

subsection \<open>The step of \<open>three64\<close>\<close>

lemma half3: "mul64 3 (1 / 2) = Inr (3 / 2)"
  unfolding mul64_def
  by (rule fl64_eval) (use fl_normal_eval [of 0 "3 / 2" 6755399441055744] in \<open>simp_all add: round_even_def Let_def\<close>)

lemma add_half3: "add64 0 (3 / 2) = Inr (3 / 2)"
  unfolding add64_def
  by (rule fl64_eval) (use fl_normal_eval [of 0 "3 / 2" 6755399441055744] in \<open>simp_all add: round_even_def Let_def\<close>)

lemma add3: "add64 0 3 = Inr 3"
  unfolding add64_def
  by (rule fl64_eval) (use fl_normal_eval [of 1 3 6755399441055744] in \<open>simp_all add: round_even_def Let_def\<close>)

lemma sub_same: "sub64 x x = Inr 0"
  unfolding sub64_def by (rule fl64_eval) (simp_all add: fl_zero)

lemma loop_same: "err_loop abs_err64 [1, 2] [1, 2] [0..<length [1, 2 :: real]] 0 = Inr 0"
  by (simp add: abs_err64_def sub_same and_then_def upt_rec)

lemma dbl_c15: "mul64 2 (5070602400912918 / 2 ^ 102) = Inr (5070602400912918 / 2 ^ 101)"
  unfolding mul64_def
  by (rule fl64_eval)
     (use fl_normal_eval [of "- 49" "2 * (5070602400912918 / 2 ^ 102)" 5070602400912918]
      in \<open>simp_all add: round_even_def Let_def\<close>)

lemma q_three: "div64 (7378697629483821 / 2 ^ 66) (5070602400912918 / 2 ^ 101) = Inr 50000000000"
  unfolding div64_def
  using fl64_eval [of "7378697629483821 / 2 ^ 66 / (5070602400912918 / 2 ^ 101)" 50000000000]
    fl_normal_eval [of 35 "7378697629483821 / 2 ^ 66 / (5070602400912918 / 2 ^ 101)" 6553600000000000]
  by (simp add: round_even_def Let_def)

lemma a_three: "mul64 (fl (9 / 10)) 3 = Inr (6079859496950170 / 2 ^ 51)"
  unfolding mul64_def c09
  by (rule fl64_eval)
     (use fl_normal_eval [of 1 "8106479329266893 / 2 ^ 53 * 3" 6079859496950170]
      in \<open>simp_all add: round_even_def Let_def\<close>)

lemma dt_three: "mul64 (6079859496950170 / 2 ^ 51) (3 / 2) = Inr (4559894622712628 / 2 ^ 50)"
  unfolding mul64_def
  by (rule fl64_eval)
     (use fl_normal_eval [of 2 "6079859496950170 / 2 ^ 51 * (3 / 2)" 4559894622712628]
      in \<open>simp_all add: round_even_def Let_def\<close>)

lemma three64_step:
  "do_step64 pow64 euler_call three64 still =
     Inr (three64\<lparr>time := 3, time_delta := 4559894622712628 / 2 ^ 50\<rparr>)"
proof -
  define p0 where "p0 = fl (50000000000 powr fl 0.2)"
  have f_y0: "euler_call (stepper1 three64) still (state three64) (time three64) (time_delta three64)
      = ((), [1, 2])"
    by (simp add: euler_call_def still_def three64_def initialize_def make_stepper_adaptive_rk4_def)
  have f_half: "mul64 (time_delta three64) 0.5 = Inr (3 / 2)"
    by (simp add: three64_def initialize_def half3)
  have f_xh: "euler_call (stepper2 three64) still (state three64) (time three64) (3 / 2) = ((), [1, 2])"
    by (simp add: euler_call_def still_def three64_def initialize_def make_stepper_adaptive_rk4_def)
  have f_th: "add64 (time three64) (3 / 2) = Inr (3 / 2)"
    by (simp add: three64_def initialize_def add_half3)
  have f_xn: "euler_call () still [1, 2] (3 / 2) (3 / 2) = ((), [1, 2])"
    by (simp add: euler_call_def still_def)
  have f_t: "add64 (time three64) (time_delta three64) = Inr 3"
    by (simp add: three64_def initialize_def add3)
  have f_d: "mul64 2 (fl (1 / 10 ^ 15)) = Inr (5070602400912918 / 2 ^ 101)"
    unfolding c15 by (rule dbl_c15)
  have f_q: "div64 (tollerance three64) (5070602400912918 / 2 ^ 101) = Inr 50000000000"
    using q_three by (simp add: three64_def initialize_def make_stepper_adaptive_rk4_def tol64)
  have v: "16 \<le> (50000000000::real) powr fl 0.2" "(50000000000::real) powr fl 0.2 \<le> 1024"
    unfolding c02 by (rule v_three(1), rule v_three(2))
  have v1: "2 powi (- 1022) \<le> (50000000000::real) powr fl 0.2"
  proof -
    have "(2::real) powi (- 1022) \<le> 2 powi 4" by (intro power_int_increasing) simp_all
    also have "\<dots> = 16" by simp
    finally show ?thesis using v(1) by linarith
  qed
  have v2: "(50000000000::real) powr fl 0.2 \<le> 2 ^ 1000" using v(2) by simp
  have pos: "(0::real) < 50000000000" by simp
  have f_p: "pow64 50000000000 (fl 0.2) = Inr p0"
    unfolding p0_def by (rule pow64_eval(1) [OF pos v1 v2])
  have "(1 - 1 / 2 ^ 53) * (50000000000 powr fl 0.2) \<le> p0"
    unfolding p0_def by (rule pow64_eval(2) [OF pos v1 v2])
  moreover have "(1 - 1 / 2 ^ 53) * 16 \<le> (1 - 1 / 2 ^ 53) * ((50000000000::real) powr fl 0.2)"
    using v(1) by (intro mult_left_mono) simp_all
  ultimately have "3 / 2 \<le> p0" by simp
  then have f_c: "min (max p0 (fl 0.3)) 1.5 = 3 / 2"
    by (simp add: min_def max_def)
  have f_a: "mul64 (fl 0.9) (time_delta three64) = Inr (6079859496950170 / 2 ^ 51)"
    using a_three by (simp add: three64_def initialize_def)
  note f_dt = dt_three
  have "do_step64 pow64 euler_call three64 still =
     Inr (three64\<lparr>stepper1 := (), stepper2 := (), state := [1, 2], time := 3,
            time_delta := 4559894622712628 / 2 ^ 50\<rparr>)"
    unfolding do_step64_def Let_def
    by (simp only: f_y0 f_half f_xh f_th f_xn f_t loop_same f_d f_q f_p f_c f_a f_dt
        and_then_def sum.case prod.case if_True simp_thms)
  then show ?thesis
    by (simp add: three64_def initialize_def make_stepper_adaptive_rk4_def)
qed

subsection \<open>The step of \<open>tiny64\<close>\<close>

lemma half_min: "mul64 (1 / 2 ^ 1074) (1 / 2) = Inr 0"
  unfolding mul64_def
  by (rule fl64_eval)
     (use fl_subnormal_eval [of "1 / 2 ^ 1074 * (1 / 2)" 0] in \<open>simp_all add: round_even_def Let_def\<close>)

lemma add_zero: "add64 0 0 = Inr 0"
  unfolding add64_def by (rule fl64_eval) (simp_all add: fl_zero)

lemma add_min: "add64 0 (1 / 2 ^ 1074) = Inr (1 / 2 ^ 1074)"
  unfolding add64_def
  by (rule fl64_eval)
     (use fl_subnormal_eval [of "1 / 2 ^ 1074" 1] in \<open>simp_all add: round_even_def Let_def\<close>)

lemma q_tiny: "div64 (1 / 2 ^ 1000) (5070602400912918 / 2 ^ 101) = Inr (7999999999999999 / 2 ^ 1004)"
  unfolding div64_def
  using fl64_eval [of "1 / 2 ^ 1000 / (5070602400912918 / 2 ^ 101)" "7999999999999999 / 2 ^ 1004"]
    fl_normal_eval [of "- 952" "1 / 2 ^ 1000 / (5070602400912918 / 2 ^ 101)" 7999999999999999]
  by (simp add: round_even_def Let_def)

lemma a_tiny: "mul64 (fl (9 / 10)) (1 / 2 ^ 1074) = Inr (1 / 2 ^ 1074)"
  unfolding mul64_def c09
  by (rule fl64_eval)
     (use fl_subnormal_eval [of "8106479329266893 / 2 ^ 53 * (1 / 2 ^ 1074)" 1]
      in \<open>simp_all add: round_even_def Let_def\<close>)

lemma dt_tiny: "mul64 (1 / 2 ^ 1074) (fl (3 / 10)) = Inr 0"
  unfolding mul64_def c03
  by (rule fl64_eval)
     (use fl_subnormal_eval [of "1 / 2 ^ 1074 * (5404319552844595 / 2 ^ 54)" 0]
      in \<open>simp_all add: round_even_def Let_def\<close>)

lemma tiny64_step:
  "do_step64 pow64 euler_call tiny64 still =
     Inr (tiny64\<lparr>time := 1 / 2 ^ 1074, time_delta := 0\<rparr>)"
proof -
  define p0 where "p0 = fl ((7999999999999999 / 2 ^ 1004) powr fl 0.2)"
  have f_y0: "euler_call (stepper1 tiny64) still (state tiny64) (time tiny64) (time_delta tiny64)
      = ((), [1, 2])"
    by (simp add: euler_call_def still_def tiny64_def initialize_def make_stepper_adaptive_rk4_def)
  have f_half: "mul64 (time_delta tiny64) 0.5 = Inr 0"
    using half_min by (simp add: tiny64_def initialize_def)
  have f_xh: "euler_call (stepper2 tiny64) still (state tiny64) (time tiny64) 0 = ((), [1, 2])"
    by (simp add: euler_call_def still_def tiny64_def initialize_def make_stepper_adaptive_rk4_def)
  have f_th: "add64 (time tiny64) 0 = Inr 0"
    by (simp add: tiny64_def initialize_def add_zero)
  have f_xn: "euler_call () still [1, 2] 0 0 = ((), [1, 2])"
    by (simp add: euler_call_def still_def)
  have f_t: "add64 (time tiny64) (time_delta tiny64) = Inr (1 / 2 ^ 1074)"
    using add_min by (simp add: tiny64_def initialize_def)
  have f_d: "mul64 2 (fl (1 / 10 ^ 15)) = Inr (5070602400912918 / 2 ^ 101)"
    unfolding c15 by (rule dbl_c15)
  have f_q: "div64 (tollerance tiny64) (5070602400912918 / 2 ^ 101) = Inr (7999999999999999 / 2 ^ 1004)"
    using q_tiny by (simp add: tiny64_def initialize_def make_stepper_adaptive_rk4_def)
  have v: "2 powi (- 240) \<le> (7999999999999999 / 2 ^ 1004 :: real) powr fl 0.2"
    "(7999999999999999 / 2 ^ 1004 :: real) powr fl 0.2 \<le> 2 powi (- 118)"
    unfolding c02 by (rule v_tiny(1), rule v_tiny(2))
  have v1: "2 powi (- 1022) \<le> (7999999999999999 / 2 ^ 1004 :: real) powr fl 0.2"
  proof -
    have "(2::real) powi (- 1022) \<le> 2 powi (- 240)" by (intro power_int_increasing) simp_all
    with v(1) show ?thesis by (rule order_trans [rotated])
  qed
  have small: "(2::real) powi (- 118) \<le> 1 / 8"
  proof -
    have "(2::real) powi (- 118) \<le> 2 powi (- 3)" by (intro power_int_increasing) simp_all
    also have "\<dots> = 1 / 8" by (simp add: inverse_eq_divide)
    finally show ?thesis .
  qed
  have v8: "(7999999999999999 / 2 ^ 1004 :: real) powr fl 0.2 \<le> 1 / 8"
    using v(2) small by (rule order_trans)
  have v2: "(7999999999999999 / 2 ^ 1004 :: real) powr fl 0.2 \<le> 2 ^ 1000"
  proof -
    have "(1 / 8 :: real) \<le> 2 ^ 1000" by simp
    with v8 show ?thesis by (rule order_trans)
  qed
  have pos: "(0::real) < 7999999999999999 / 2 ^ 1004" by simp
  have f_p: "pow64 (7999999999999999 / 2 ^ 1004) (fl 0.2) = Inr p0"
    unfolding p0_def by (rule pow64_eval(1) [OF pos v1 v2])
  have "p0 \<le> (1 + 1 / 2 ^ 53) * ((7999999999999999 / 2 ^ 1004) powr fl 0.2)"
    unfolding p0_def by (rule pow64_eval(3) [OF pos v1 v2])
  moreover have "(1 + 1 / 2 ^ 53) * ((7999999999999999 / 2 ^ 1004 :: real) powr fl 0.2)
      \<le> (1 + 1 / 2 ^ 53) * (1 / 8)"
    using v8 by (intro mult_left_mono) simp_all
  moreover have "(1 + 1 / 2 ^ 53) * (1 / 8) \<le> (5404319552844595 / 2 ^ 54 :: real)" by simp
  ultimately have "p0 \<le> 5404319552844595 / 2 ^ 54" by linarith
  then have "p0 \<le> fl 0.3" by (simp only: c03)
  moreover have "fl 0.3 \<le> (1.5::real)" by (simp add: c03)
  ultimately have f_c: "min (max p0 (fl 0.3)) 1.5 = fl 0.3"
    by (simp add: min_def max_def)
  have f_a: "mul64 (fl 0.9) (time_delta tiny64) = Inr (1 / 2 ^ 1074)"
    using a_tiny by (simp add: tiny64_def initialize_def)
  have f_dt: "mul64 (1 / 2 ^ 1074) (fl 0.3) = Inr 0" by (rule dt_tiny)
  have "do_step64 pow64 euler_call tiny64 still =
     Inr (tiny64\<lparr>stepper1 := (), stepper2 := (), state := [1, 2], time := 1 / 2 ^ 1074,
            time_delta := 0\<rparr>)"
    unfolding do_step64_def Let_def
    by (simp only: f_y0 f_half f_xh f_th f_xn f_t loop_same f_d f_q f_p f_c f_a f_dt
        and_then_def sum.case prod.case if_True simp_thms)
  then show ?thesis
    by (simp add: tiny64_def initialize_def make_stepper_adaptive_rk4_def)
qed

subsection \<open>The step of \<open>seven64\<close>\<close>

lemma half7: "mul64 7 (1 / 2) = Inr (7 / 2)"
  unfolding mul64_def
  by (rule fl64_eval) (use fl_normal_eval [of 1 "7 / 2" 7881299347898368] in \<open>simp_all add: round_even_def Let_def\<close>)

lemma add_half7: "add64 0 (7 / 2) = Inr (7 / 2)"
  unfolding add64_def
  by (rule fl64_eval) (use fl_normal_eval [of 1 "7 / 2" 7881299347898368] in \<open>simp_all add: round_even_def Let_def\<close>)

lemma add7: "add64 0 7 = Inr 7"
  unfolding add64_def
  by (rule fl64_eval) (use fl_normal_eval [of 2 7 7881299347898368] in \<open>simp_all add: round_even_def Let_def\<close>)

lemma sub_a: "sub64 (81 / 4) 8 = Inr (49 / 4)"
  unfolding sub64_def
  by (rule fl64_eval) (use fl_normal_eval [of 3 "49 / 4" 6896136929411072] in \<open>simp_all add: round_even_def Let_def\<close>)

lemma sub_b: "sub64 (81 / 2) 16 = Inr (49 / 2)"
  unfolding sub64_def
  by (rule fl64_eval) (use fl_normal_eval [of 4 "49 / 2" 6896136929411072] in \<open>simp_all add: round_even_def Let_def\<close>)

lemma loop_seven:
  "err_loop abs_err64 [81 / 4, 81 / 2] [8, 16] [0..<length [81 / 4, 81 / 2 :: real]] 0 = Inr (49 / 2)"
  by (simp add: abs_err64_def sub_a sub_b and_then_def upt_rec)

lemma dbl_err: "mul64 2 (49 / 2) = Inr 49"
  unfolding mul64_def
  by (rule fl64_eval) (use fl_normal_eval [of 5 49 6896136929411072] in \<open>simp_all add: round_even_def Let_def\<close>)

lemma q_seven: "div64 (7378697629483821 / 2 ^ 66) 49 = Inr (4818741309050659 / 2 ^ 71)"
  unfolding div64_def
  using fl64_eval [of "7378697629483821 / 2 ^ 66 / 49" "4818741309050659 / 2 ^ 71"]
    fl_normal_eval [of "- 19" "7378697629483821 / 2 ^ 66 / 49" 4818741309050659]
  by (simp add: round_even_def Let_def)

lemma a_seven: "mul64 (fl (9 / 10)) 7 = Inr (7093169413108531 / 2 ^ 50)"
  unfolding mul64_def c09
  by (rule fl64_eval)
     (use fl_normal_eval [of 2 "8106479329266893 / 2 ^ 53 * 7" 7093169413108531]
      in \<open>simp_all add: round_even_def Let_def\<close>)

lemma dt_seven: "mul64 (7093169413108531 / 2 ^ 50) (fl (3 / 10)) = Inr (8511803295730237 / 2 ^ 52)"
  unfolding mul64_def c03
  by (rule fl64_eval)
     (use fl_normal_eval [of 0 "7093169413108531 / 2 ^ 50 * (5404319552844595 / 2 ^ 54)" 8511803295730237]
      in \<open>simp_all add: round_even_def Let_def\<close>)

lemma seven64_step:
  "do_step64 pow64 euler_call seven64 growth =
     Inr (seven64\<lparr>state := [81 / 4, 81 / 2], time := 7, time_delta := 8511803295730237 / 2 ^ 52\<rparr>)"
proof -
  define p0 where "p0 = fl ((4818741309050659 / 2 ^ 71) powr fl 0.2)"
  have f_y0: "euler_call (stepper1 seven64) growth (state seven64) (time seven64) (time_delta seven64)
      = ((), [8, 16])"
    by (simp add: euler_call_def growth_def seven64_def initialize_def make_stepper_adaptive_rk4_def)
  have f_half: "mul64 (time_delta seven64) 0.5 = Inr (7 / 2)"
    using half7 by (simp add: seven64_def initialize_def)
  have f_xh: "euler_call (stepper2 seven64) growth (state seven64) (time seven64) (7 / 2)
      = ((), [9 / 2, 9])"
    by (simp add: euler_call_def growth_def seven64_def initialize_def make_stepper_adaptive_rk4_def)
  have f_th: "add64 (time seven64) (7 / 2) = Inr (7 / 2)"
    by (simp add: seven64_def initialize_def add_half7)
  have f_xn: "euler_call () growth [9 / 2, 9] (7 / 2) (7 / 2) = ((), [81 / 4, 81 / 2])"
    by (simp add: euler_call_def growth_def)
  have f_t: "add64 (time seven64) (time_delta seven64) = Inr 7"
    using add7 by (simp add: seven64_def initialize_def)
  have f_if: "(if (49 / 2 :: real) = 0 then fl (1 / 10 ^ 15) else 49 / 2) = 49 / 2" by simp
  have f_q: "div64 (tollerance seven64) 49 = Inr (4818741309050659 / 2 ^ 71)"
    using q_seven by (simp add: seven64_def initialize_def make_stepper_adaptive_rk4_def tol64)
  have v: "2 powi (- 5) \<le> (4818741309050659 / 2 ^ 71 :: real) powr fl 0.2"
    "(4818741309050659 / 2 ^ 71 :: real) powr fl 0.2 \<le> 1 / 4"
    unfolding c02 by (rule v_seven(1), rule v_seven(2))
  have v1: "2 powi (- 1022) \<le> (4818741309050659 / 2 ^ 71 :: real) powr fl 0.2"
  proof -
    have "(2::real) powi (- 1022) \<le> 2 powi (- 5)" by (intro power_int_increasing) simp_all
    with v(1) show ?thesis by (rule order_trans [rotated])
  qed
  have v2: "(4818741309050659 / 2 ^ 71 :: real) powr fl 0.2 \<le> 2 ^ 1000"
  proof -
    have "(1 / 4 :: real) \<le> 2 ^ 1000" by simp
    with v(2) show ?thesis by (rule order_trans)
  qed
  have pos: "(0::real) < 4818741309050659 / 2 ^ 71" by simp
  have f_p: "pow64 (4818741309050659 / 2 ^ 71) (fl 0.2) = Inr p0"
    unfolding p0_def by (rule pow64_eval(1) [OF pos v1 v2])
  have "p0 \<le> (1 + 1 / 2 ^ 53) * ((4818741309050659 / 2 ^ 71) powr fl 0.2)"
    unfolding p0_def by (rule pow64_eval(3) [OF pos v1 v2])
  moreover have "(1 + 1 / 2 ^ 53) * ((4818741309050659 / 2 ^ 71 :: real) powr fl 0.2)
      \<le> (1 + 1 / 2 ^ 53) * (1 / 4)"
    using v(2) by (intro mult_left_mono) simp_all
  moreover have "(1 + 1 / 2 ^ 53) * (1 / 4) \<le> (5404319552844595 / 2 ^ 54 :: real)" by simp
  ultimately have "p0 \<le> 5404319552844595 / 2 ^ 54" by linarith
  then have "p0 \<le> fl 0.3" by (simp only: c03)
  moreover have "fl 0.3 \<le> (1.5::real)" by (simp add: c03)
  ultimately have f_c: "min (max p0 (fl 0.3)) 1.5 = fl 0.3"
    by (simp add: min_def max_def)
  have f_a: "mul64 (fl 0.9) (time_delta seven64) = Inr (7093169413108531 / 2 ^ 50)"
    using a_seven by (simp add: seven64_def initialize_def)
  have f_dt: "mul64 (7093169413108531 / 2 ^ 50) (fl 0.3) = Inr (8511803295730237 / 2 ^ 52)"
    by (rule dt_seven)
  have "do_step64 pow64 euler_call seven64 growth =
     Inr (seven64\<lparr>stepper1 := (), stepper2 := (), state := [81 / 4, 81 / 2], time := 7,
            time_delta := 8511803295730237 / 2 ^ 52\<rparr>)"
    unfolding do_step64_def Let_def
    by (simp only: f_y0 f_half f_xh f_th f_xn f_t loop_seven f_if dbl_err f_q f_p f_c f_a f_dt
        and_then_def sum.case prod.case)
  then show ?thesis
    by (simp add: seven64_def initialize_def make_stepper_adaptive_rk4_def)
qed

section \<open>The claims about the adaptive controller\<close>

text \<open>
  C1. Every call of the step operation stores, as the step size for the next call,
  \<open>0.9 * dt * min(max((tol / (2 * e)) ^ 0.2, 0.3), 1.5)\<close>, where \<open>tol\<close> is the tolerance,
  \<open>dt\<close> the step size at the start of the call and \<open>e\<close> the floored error estimate of
  the two candidates. The hypotheses keep the call inside the model: no read out of
  range, and a tolerance whose quotient has a real power.
\<close>

theorem step_size_update_formula:
  assumes "length (candidate_B rk4 s system) \<le> length (candidate_A rk4 s system)"
    and "0 \<le> tollerance s"
  shows "\<exists>s' e0. do_step rk4 s system = Inr s' \<and>
      truncation_error flag (candidate_B rk4 s system) (candidate_A rk4 s system) = Inr e0 \<and>
      time_delta s' =
        0.9 * time_delta s * min (max ((tollerance s / (2 * floor_error e0)) powr 0.2) 0.3) 1.5"
  by (intro exI conjI)
     (rule do_step_Inr [OF assms], rule truncation_error_Inr [OF assms(1)], rule stepped_fields(4))

theorem step_size_update_formula_witness:
  "length (candidate_B euler_call growing growth) \<le> length (candidate_A euler_call growing growth) \<and>
   0 \<le> tollerance growing \<and>
   (\<exists>s'. do_step euler_call growing growth = Inr s' \<and> time_delta s' = 9 / 10)"
proof -
  from step_size_update_formula [OF growing_len growing_tol]
  obtain s' e0 where s': "do_step euler_call growing growth = Inr s'"
    and e0: "truncation_error flag (candidate_B euler_call growing growth)
               (candidate_A euler_call growing growth) = Inr e0"
    and dt: "time_delta s' =
        0.9 * time_delta growing * min (max ((tollerance growing / (2 * floor_error e0)) powr 0.2) 0.3) 1.5"
    by blast
  have "truncation_error flag [9, 18] [8, 16] = Inr 2"
    using truncation_error_Inr [of "[9, 18]" "[8, 16]"] by (simp add: growing_err)
  with e0 have "e0 = 2" by (simp add: growing_A growing_B)
  with dt have "time_delta s' = 0.9 * time_delta growing * 1" by (simp only: growing_clamp)
  then have "time_delta s' = 9 / 10" by (simp add: growing_def initialize_def make_stepper_adaptive_rk4_def)
  with s' growing_len growing_tol show ?thesis by blast
qed

text \<open>
  C2. The error estimate of a call, before it is floored, is the maximum over all
  components of the absolute difference between candidate B and candidate A (zero for
  a state without components): the absolute branch of the \<open>if constexpr\<close> is the one
  taken, and it is this value that the step-size update floors and uses.
\<close>

theorem error_estimate_is_max_norm:
  assumes "length (candidate_B rk4 s system) \<le> length (candidate_A rk4 s system)"
  shows "truncation_error flag (candidate_B rk4 s system) (candidate_A rk4 s system) =
        err_loop abs_err (candidate_B rk4 s system) (candidate_A rk4 s system)
          [0..<length (candidate_B rk4 s system)] 0 \<and>
      truncation_error flag (candidate_B rk4 s system) (candidate_A rk4 s system) =
        Inr (Max (insert 0 ((\<lambda>i. \<bar>candidate_B rk4 s system ! i - candidate_A rk4 s system ! i\<bar>) `
                            {..<length (candidate_B rk4 s system)}))) \<and>
      (candidate_B rk4 s system \<noteq> [] \<longrightarrow>
        truncation_error flag (candidate_B rk4 s system) (candidate_A rk4 s system) =
          Inr (Max ((\<lambda>i. \<bar>candidate_B rk4 s system ! i - candidate_A rk4 s system ! i\<bar>) `
                      {..<length (candidate_B rk4 s system)}))) \<and>
      do_step rk4 s system =
        (case pow (tollerance s /
                (2 * floor_error (max_abs_diff (candidate_B rk4 s system) (candidate_A rk4 s system)))) 0.2 of
           Inl e \<Rightarrow> Inl e
         | Inr p \<Rightarrow> Inr (stepped rk4 s system p))"
proof (intro conjI impI)
  show "truncation_error flag (candidate_B rk4 s system) (candidate_A rk4 s system) =
        err_loop abs_err (candidate_B rk4 s system) (candidate_A rk4 s system)
          [0..<length (candidate_B rk4 s system)] 0"
    by (simp add: truncation_error_def flag_def)
next
  show "truncation_error flag (candidate_B rk4 s system) (candidate_A rk4 s system) =
        Inr (Max (insert 0 ((\<lambda>i. \<bar>candidate_B rk4 s system ! i - candidate_A rk4 s system ! i\<bar>) `
                            {..<length (candidate_B rk4 s system)})))"
    using truncation_error_Inr [OF assms] by (simp only: max_abs_diff_def)
next
  assume "candidate_B rk4 s system \<noteq> []"
  from max_abs_diff_nonempty [OF this, of "candidate_A rk4 s system"]
  show "truncation_error flag (candidate_B rk4 s system) (candidate_A rk4 s system) =
          Inr (Max ((\<lambda>i. \<bar>candidate_B rk4 s system ! i - candidate_A rk4 s system ! i\<bar>) `
                      {..<length (candidate_B rk4 s system)}))"
    using truncation_error_Inr [OF assms] by simp
next
  show "do_step rk4 s system =
        (case pow (tollerance s /
                (2 * floor_error (max_abs_diff (candidate_B rk4 s system) (candidate_A rk4 s system)))) 0.2 of
           Inl e \<Rightarrow> Inl e
         | Inr p \<Rightarrow> Inr (stepped rk4 s system p))"
    by (simp only: do_step_unfold truncation_error_Inr [OF assms] sum.case)
qed

theorem error_estimate_is_max_norm_witness:
  "length (candidate_B euler_call growing growth) \<le> length (candidate_A euler_call growing growth) \<and>
   candidate_B euler_call growing growth \<noteq> [] \<and>
   truncation_error flag [9, 18] [8, 16] = Inr (max \<bar>9 - 8\<bar> \<bar>18 - 16\<bar>)"
proof -
  have ne: "candidate_B euler_call growing growth \<noteq> []" by (simp add: growing_B)
  have mx: "Max ((\<lambda>i. \<bar>[9, 18 :: real] ! i - [8, 16] ! i\<bar>) ` {..<length [9, 18 :: real]}) = 2"
    by (simp add: lessThan_Suc numeral_2_eq_2)
  from error_estimate_is_max_norm [OF growing_len] ne
  have "truncation_error flag (candidate_B euler_call growing growth) (candidate_A euler_call growing growth) =
          Inr (Max ((\<lambda>i. \<bar>candidate_B euler_call growing growth ! i - candidate_A euler_call growing growth ! i\<bar>) `
                      {..<length (candidate_B euler_call growing growth)}))"
    by blast
  then have "truncation_error flag [9, 18] [8, 16] =
      Inr (Max ((\<lambda>i. \<bar>[9, 18 :: real] ! i - [8, 16] ! i\<bar>) ` {..<length [9, 18 :: real]}))"
    by (simp only: growing_A growing_B)
  then have "truncation_error flag [9, 18] [8, 16] = Inr 2"
    by (simp only: mx)
  with growing_len ne show ?thesis by simp
qed

text \<open>
  C3. Candidate A is one step of the full duration from the state, the time and the
  step size before the call, taken with the first stepper. Candidate B is two steps of
  half the duration with the second stepper: the first from the state before the call
  at time \<open>t\<close>, the second from the result of the first at time \<open>t + dt/2\<close>. After the
  call the state of the session is candidate B; candidate A enters the result through
  the error estimate only.
\<close>

theorem candidates_and_new_state:
  assumes "length (candidate_B rk4 s system) \<le> length (candidate_A rk4 s system)"
    and "0 \<le> tollerance s"
  shows "candidate_A rk4 s system = snd (rk4 (stepper1 s) system (state s) (time s) (time_delta s)) \<and>
      candidate_B rk4 s system =
        snd (rk4 (fst (rk4 (stepper2 s) system (state s) (time s) (time_delta s / 2))) system
               (snd (rk4 (stepper2 s) system (state s) (time s) (time_delta s / 2)))
               (time s + time_delta s / 2) (time_delta s / 2)) \<and>
      (\<exists>s' e0. do_step rk4 s system = Inr s' \<and>
          state s' = candidate_B rk4 s system \<and>
          current_state s' = candidate_B rk4 s system \<and>
          truncation_error flag (state s') (candidate_A rk4 s system) = Inr e0 \<and>
          s' = stepped rk4 s system ((tollerance s / (2 * floor_error e0)) powr 0.2))"
proof (intro conjI)
  show "candidate_A rk4 s system = snd (rk4 (stepper1 s) system (state s) (time s) (time_delta s))"
    by (simp add: candidate_A_def)
  show "candidate_B rk4 s system =
        snd (rk4 (fst (rk4 (stepper2 s) system (state s) (time s) (time_delta s / 2))) system
               (snd (rk4 (stepper2 s) system (state s) (time s) (time_delta s / 2)))
               (time s + time_delta s / 2) (time_delta s / 2))"
    by (simp add: candidate_B_def split: prod.splits)
  let ?p = "(tollerance s /
      (2 * floor_error (max_abs_diff (candidate_B rk4 s system) (candidate_A rk4 s system)))) powr 0.2"
  have "do_step rk4 s system = Inr (stepped rk4 s system ?p)"
    by (rule do_step_Inr [OF assms])
  moreover have "state (stepped rk4 s system ?p) = candidate_B rk4 s system"
    by (rule stepped_fields(1))
  moreover have "truncation_error flag (state (stepped rk4 s system ?p)) (candidate_A rk4 s system) =
      Inr (max_abs_diff (candidate_B rk4 s system) (candidate_A rk4 s system))"
    using truncation_error_Inr [OF assms(1)] by (simp only: stepped_fields(1))
  ultimately show "\<exists>s' e0. do_step rk4 s system = Inr s' \<and>
          state s' = candidate_B rk4 s system \<and>
          current_state s' = candidate_B rk4 s system \<and>
          truncation_error flag (state s') (candidate_A rk4 s system) = Inr e0 \<and>
          s' = stepped rk4 s system ((tollerance s / (2 * floor_error e0)) powr 0.2)"
    by (auto simp: current_state_def)
qed

theorem candidates_and_new_state_witness:
  "length (candidate_B euler_call growing growth) \<le> length (candidate_A euler_call growing growth) \<and>
   0 \<le> tollerance growing \<and>
   candidate_A euler_call growing growth = [8, 16] \<and>
   candidate_B euler_call growing growth = [9, 18] \<and>
   (\<exists>s'. do_step euler_call growing growth = Inr s' \<and> state s' = [9, 18])"
proof -
  from candidates_and_new_state [OF growing_len growing_tol]
  obtain s' where "do_step euler_call growing growth = Inr s'"
    and "state s' = candidate_B euler_call growing growth"
    by blast
  then have "\<exists>s'. do_step euler_call growing growth = Inr s' \<and> state s' = [9, 18]"
    by (auto simp: growing_B)
  with growing_len growing_tol growing_A growing_B show ?thesis by blast
qed

text \<open>
  C4. When candidate A and candidate B agree in every component, the error estimate
  is zero and the estimate used in the step-size formula is \<open>1e-15\<close>, so the divisor
  \<open>2 * error\<close> of the formula is not zero.
\<close>

theorem zero_error_is_floored:
  assumes "length (candidate_B rk4 s system) \<le> length (candidate_A rk4 s system)"
    and "\<forall>i<length (candidate_B rk4 s system). candidate_B rk4 s system ! i - candidate_A rk4 s system ! i = 0"
    and "0 \<le> tollerance s"
  shows "truncation_error flag (candidate_B rk4 s system) (candidate_A rk4 s system) = Inr 0 \<and>
      floor_error 0 = 1 / 10 ^ 15 \<and>
      (\<forall>e. 2 * floor_error e \<noteq> 0) \<and>
      (\<exists>s'. do_step rk4 s system = Inr s' \<and>
         time_delta s' =
           0.9 * time_delta s * min (max ((tollerance s / (2 * (1 / 10 ^ 15))) powr 0.2) 0.3) 1.5)"
proof -
  have z: "max_abs_diff (candidate_B rk4 s system) (candidate_A rk4 s system) = 0"
    by (rule max_abs_diff_zero [OF assms(2)])
  have f: "floor_error 0 = 1 / 10 ^ 15" by (simp add: floor_error_def)
  have t: "truncation_error flag (candidate_B rk4 s system) (candidate_A rk4 s system) = Inr 0"
    using truncation_error_Inr [OF assms(1)] by (simp only: z)
  have nz: "\<forall>e. 2 * floor_error e \<noteq> 0" by (simp add: floor_error_def)
  let ?p = "(tollerance s / (2 * (1 / 10 ^ 15))) powr 0.2"
  have d: "do_step rk4 s system = Inr (stepped rk4 s system ?p)"
    using do_step_Inr [OF assms(1) assms(3)] by (simp only: z f)
  have dt: "time_delta (stepped rk4 s system ?p) = 0.9 * time_delta s * min (max ?p 0.3) 1.5"
    by (rule stepped_fields(4))
  from d dt have "\<exists>s'. do_step rk4 s system = Inr s' \<and>
         time_delta s' = 0.9 * time_delta s * min (max ?p 0.3) 1.5"
    by (intro exI conjI)
  with t f nz show ?thesis by (intro conjI)
qed

theorem zero_error_is_floored_witness:
  "length (candidate_B euler_call resting still) \<le> length (candidate_A euler_call resting still) \<and>
   candidate_B euler_call resting still = [1, 2] \<and>
   candidate_A euler_call resting still = [1, 2] \<and>
   0 \<le> tollerance resting \<and>
   (\<exists>s'. do_step euler_call resting still = Inr s' \<and> time_delta s' = 27 / 20000)"
proof -
  have same: "\<forall>i<length (candidate_B euler_call resting still).
      candidate_B euler_call resting still ! i - candidate_A euler_call resting still ! i = 0"
    by (simp add: resting_A resting_B)
  from zero_error_is_floored [OF resting_len same resting_tol]
  obtain s' where s': "do_step euler_call resting still = Inr s'"
    and dt: "time_delta s' =
           0.9 * time_delta resting * min (max ((tollerance resting / (2 * (1 / 10 ^ 15))) powr 0.2) 0.3) 1.5"
    by blast
  from dt have "time_delta s' = 0.9 * time_delta resting * 1.5" by (simp only: resting_clamp)
  then have "time_delta s' = 27 / 20000" by (simp add: resting_def initialize_def make_stepper_adaptive_rk4_def)
  with s' resting_len resting_A resting_B resting_tol show ?thesis by blast
qed

text \<open>
  C5, as stated: for every call of the step operation the ratio of the step size after
  the call to the step size before it lies in \<open>[0.27, 1.35]\<close>. In the arithmetic of
  doubles both ends fail, at ordinary step sizes and with the default tolerance. The
  session \<open>three64\<close> (step size \<open>3\<close>, system \<open>dx/dt = 0\<close>) takes the upper clamp \<open>1.5\<close>
  and stores \<open>4559894622712628 / 2 ^ 50\<close>, the double \<open>4.050000000000001\<close>, more than
  \<open>1.35\<close> times \<open>3\<close>. The session \<open>seven64\<close> (step size \<open>7\<close>, system \<open>dx/dt = x\<close>)
  takes the lower clamp, the double \<open>0.3\<close>, and stores \<open>8511803295730237 / 2 ^ 52\<close>, a
  double below \<open>1.89\<close>, less than \<open>0.27\<close> times \<open>7\<close>.
\<close>

theorem step_ratio_rounding_counterexample:
  "do_step64 pow64 euler_call three64 still =
     Inr (three64\<lparr>time := 3, time_delta := 4559894622712628 / 2 ^ 50\<rparr>) \<and>
   time_delta three64 = 3 \<and>
   \<not> (time_delta (three64\<lparr>time := 3, time_delta := 4559894622712628 / 2 ^ 50\<rparr>) / time_delta three64
        \<le> 1.35) \<and>
   do_step64 pow64 euler_call seven64 growth =
     Inr (seven64\<lparr>state := [81 / 4, 81 / 2], time := 7, time_delta := 8511803295730237 / 2 ^ 52\<rparr>) \<and>
   time_delta seven64 = 7 \<and>
   \<not> (0.27 \<le> time_delta (seven64\<lparr>state := [81 / 4, 81 / 2], time := 7,
                    time_delta := 8511803295730237 / 2 ^ 52\<rparr>) / time_delta seven64)"
proof -
  have t3: "time_delta three64 = 3" by (simp add: three64_def initialize_def)
  have t7: "time_delta seven64 = 7" by (simp add: seven64_def initialize_def)
  have "\<not> (time_delta (three64\<lparr>time := 3, time_delta := 4559894622712628 / 2 ^ 50\<rparr>) / time_delta three64
        \<le> 1.35)"
    by (simp add: t3)
  moreover have "\<not> (0.27 \<le> time_delta (seven64\<lparr>state := [81 / 4, 81 / 2], time := 7,
                    time_delta := 8511803295730237 / 2 ^ 52\<rparr>) / time_delta seven64)"
    by (simp add: t7)
  ultimately show ?thesis using three64_step seven64_step t3 t7 by (intro conjI)
qed

text \<open>
  C5, amended: for every call of the step operation in double arithmetic that returns
  with finite values and starts with a step size of magnitude at least \<open>2\<close> to the power
  \<open>- 1020\<close>, the ratio of the step size after the call to the step size before it lies
  in \<open>[0.27 * (1 - 1 / 2 ^ 51), 1.35 * (1 + 1 / 2 ^ 51)]\<close>. This holds for every
  \<open>std::pow\<close>, every pair of steppers and every tolerance.
\<close>

theorem step_ratio_bounds_rounded:
  assumes "do_step64 pw rk4 s system = Inr s'"
    and "2 powi (- 1020) \<le> \<bar>time_delta s\<bar>"
  shows "0.27 * (1 - 1 / 2 ^ 51) \<le> time_delta s' / time_delta s \<and>
         time_delta s' / time_delta s \<le> 1.35 * (1 + 1 / 2 ^ 51)"
proof -
  from do_step64_time_delta [OF assms(1)] obtain c
    where c: "fl 0.3 \<le> c" "c \<le> 1.5"
      and dt: "time_delta s' = fl (fl (fl 0.9 * time_delta s) * c)"
    by blast
  from step_ratio_rounded [OF c assms(2)] show ?thesis by (simp only: dt)
qed

theorem step_ratio_bounds_rounded_witness:
  "do_step64 pow64 euler_call three64 still =
     Inr (three64\<lparr>time := 3, time_delta := 4559894622712628 / 2 ^ 50\<rparr>) \<and>
   2 powi (- 1020) \<le> \<bar>time_delta three64\<bar> \<and>
   0.27 * (1 - 1 / 2 ^ 51)
     \<le> time_delta (three64\<lparr>time := 3, time_delta := 4559894622712628 / 2 ^ 50\<rparr>) / time_delta three64 \<and>
   time_delta (three64\<lparr>time := 3, time_delta := 4559894622712628 / 2 ^ 50\<rparr>) / time_delta three64
     \<le> 1.35 * (1 + 1 / 2 ^ 51)"
proof -
  have "(2::real) powi (- 1020) \<le> 2 powi 1" by (intro power_int_increasing) simp_all
  then have big: "2 powi (- 1020) \<le> \<bar>time_delta three64\<bar>"
    by (simp add: three64_def initialize_def)
  from step_ratio_bounds_rounded [OF three64_step big] three64_step big
  show ?thesis by (intro conjI) simp_all
qed

text \<open>
  C6, as stated: with a positive tolerance and a positive initial step size, the step
  size stays strictly positive after any number of step calls. In the arithmetic of
  doubles the product underflows: the session \<open>tiny64\<close> has the positive tolerance \<open>2\<close>
  to the power \<open>- 1000\<close> and the least positive double as its step size, takes the
  lower clamp, and after one call its step size is \<open>0\<close>.
\<close>

theorem step_size_underflow_counterexample:
  "(0::real) < 1 / 2 ^ 1000 \<and> (0::real) < 1 / 2 ^ 1074 \<and>
   run_steps64 pow64 euler_call
      (initialize (make_stepper_adaptive_rk4 () (1 / 2 ^ 1000)) [1, 2] 0 (1 / 2 ^ 1074)) [still]
     = Inr (tiny64\<lparr>time := 1 / 2 ^ 1074, time_delta := 0\<rparr>) \<and>
   current_time_step (tiny64\<lparr>time := 1 / 2 ^ 1074, time_delta := 0\<rparr>) = 0 \<and>
   \<not> 0 < current_time_step (tiny64\<lparr>time := 1 / 2 ^ 1074, time_delta := 0\<rparr>)"
proof -
  have "run_steps64 pow64 euler_call tiny64 [still] = Inr (tiny64\<lparr>time := 1 / 2 ^ 1074, time_delta := 0\<rparr>)"
    by (simp add: tiny64_step)
  then have "run_steps64 pow64 euler_call
      (initialize (make_stepper_adaptive_rk4 () (1 / 2 ^ 1000)) [1, 2] 0 (1 / 2 ^ 1074)) [still]
     = Inr (tiny64\<lparr>time := 1 / 2 ^ 1074, time_delta := 0\<rparr>)"
    by (simp only: tiny64_def)
  moreover have "current_time_step (tiny64\<lparr>time := 1 / 2 ^ 1074, time_delta := 0\<rparr>) = 0"
    by (simp add: current_time_step_def)
  ultimately show ?thesis by simp
qed

text \<open>
  C6, amended: with a positive tolerance and a positive initial step size, the step
  size is never negative after any number of step calls in double arithmetic that
  return with finite values, and a further such call that starts with a step size of
  at least \<open>2\<close> to the power \<open>- 1073\<close> (twice the least positive double) leaves a
  strictly positive step size.
\<close>

theorem step_size_never_negative:
  assumes "0 < tol" and "0 < dt"
  shows "\<forall>sk. run_steps64 pw rk4 (initialize (make_stepper_adaptive_rk4 k0 tol) x t dt) systems = Inr sk \<longrightarrow>
           0 \<le> current_time_step sk \<and>
           (\<forall>s'. 1 / 2 ^ 1073 \<le> current_time_step sk \<and> do_step64 pw rk4 sk system = Inr s' \<longrightarrow>
                 0 < current_time_step s')"
proof (intro allI impI conjI)
  fix sk
  assume r: "run_steps64 pw rk4 (initialize (make_stepper_adaptive_rk4 k0 tol) x t dt) systems = Inr sk"
  have "0 \<le> time_delta (initialize (make_stepper_adaptive_rk4 k0 tol) x t dt)"
    using assms(2) by (simp add: initialize_def)
  from run_steps64_nonneg [OF r this] show "0 \<le> current_time_step sk"
    by (simp add: current_time_step_def)
next
  fix sk s'
  assume "1 / 2 ^ 1073 \<le> current_time_step sk \<and> do_step64 pw rk4 sk system = Inr s'"
  then have "1 / 2 ^ 1073 \<le> time_delta sk" and "do_step64 pw rk4 sk system = Inr s'"
    by (simp_all add: current_time_step_def)
  from do_step64_pos [OF this(2) this(1)] show "0 < current_time_step s'"
    by (simp add: current_time_step_def)
qed

theorem step_size_never_negative_witness:
  "0 < fl default_tollerance \<and> (0::real) < 3 \<and>
   run_steps64 pow64 euler_call
      (initialize (make_stepper_adaptive_rk4 () (fl default_tollerance)) [1, 2] 0 3) [still]
     = Inr (three64\<lparr>time := 3, time_delta := 4559894622712628 / 2 ^ 50\<rparr>) \<and>
   0 \<le> current_time_step (three64\<lparr>time := 3, time_delta := 4559894622712628 / 2 ^ 50\<rparr>) \<and>
   run_steps64 pow64 euler_call
      (initialize (make_stepper_adaptive_rk4 () (fl default_tollerance)) [1, 2] 0 3) [] = Inr three64 \<and>
   1 / 2 ^ 1073 \<le> current_time_step three64 \<and>
   do_step64 pow64 euler_call three64 still =
     Inr (three64\<lparr>time := 3, time_delta := 4559894622712628 / 2 ^ 50\<rparr>) \<and>
   0 < current_time_step (three64\<lparr>time := 3, time_delta := 4559894622712628 / 2 ^ 50\<rparr>)"
proof -
  have tol: "0 < fl default_tollerance" by (simp add: tol64)
  have dt: "(0::real) < 3" by simp
  have run0: "run_steps64 pow64 euler_call
      (initialize (make_stepper_adaptive_rk4 () (fl default_tollerance)) [1, 2] 0 3) [] = Inr three64"
    by (simp add: three64_def)
  have "run_steps64 pow64 euler_call three64 [still]
      = Inr (three64\<lparr>time := 3, time_delta := 4559894622712628 / 2 ^ 50\<rparr>)"
    by (simp add: three64_step)
  then have run1: "run_steps64 pow64 euler_call
      (initialize (make_stepper_adaptive_rk4 () (fl default_tollerance)) [1, 2] 0 3) [still]
     = Inr (three64\<lparr>time := 3, time_delta := 4559894622712628 / 2 ^ 50\<rparr>)"
    by (simp only: three64_def)
  have big: "1 / 2 ^ 1073 \<le> current_time_step three64"
    by (simp add: current_time_step_def three64_def initialize_def)
  note t1 = step_size_never_negative [OF tol dt, of pow64 euler_call "()" "[1, 2]" 0 "[still]" still]
  note t0 = step_size_never_negative [OF tol dt, of pow64 euler_call "()" "[1, 2]" 0 "[]" still]
  from t1 run1
  have a: "0 \<le> current_time_step (three64\<lparr>time := 3, time_delta := 4559894622712628 / 2 ^ 50\<rparr>)"
    by blast
  from t0 run0 big three64_step
  have b: "0 < current_time_step (three64\<lparr>time := 3, time_delta := 4559894622712628 / 2 ^ 50\<rparr>)"
    by blast
  from tol dt run1 a run0 big three64_step b show ?thesis by (intro conjI)
qed

text \<open>
  C7. A step call advances the time of the session by the step size in effect at the
  start of that call. After the calls of a run the time is the initial time with the
  step sizes in effect at the start of the calls added to it one after the other, which
  is the initial time plus their sum.
\<close>

theorem time_advances_by_step_sizes:
  "(\<forall>s'. do_step rk4 s system = Inr s' \<longrightarrow>
        time s' = time s + time_delta s \<and> current_time s' = current_time s + current_time_step s) \<and>
   (\<forall>s'. run_steps rk4 s systems = Inr s' \<longrightarrow>
        length (step_sizes rk4 s systems) = length systems \<and>
        time s' = foldl (+) (time s) (step_sizes rk4 s systems) \<and>
        time s' = time s + sum_list (step_sizes rk4 s systems)) \<and>
   ((\<forall>system \<in> set systems. keeps_size rk4 system) \<and> 0 \<le> tollerance s \<longrightarrow>
        (\<exists>s'. run_steps rk4 s systems = Inr s'))"
proof (intro conjI impI allI)
  fix s'
  assume "do_step rk4 s system = Inr s'"
  then show "time s' = time s + time_delta s"
    and "current_time s' = current_time s + current_time_step s"
    by (simp_all add: do_step_time current_time_def current_time_step_def)
next
  fix s'
  assume r: "run_steps rk4 s systems = Inr s'"
  from run_steps_time [OF r]
  show "length (step_sizes rk4 s systems) = length systems"
    and "time s' = foldl (+) (time s) (step_sizes rk4 s systems)"
    by simp_all
  then show "time s' = time s + sum_list (step_sizes rk4 s systems)"
    by (simp only: foldl_plus_sum_list)
next
  assume "(\<forall>system \<in> set systems. keeps_size rk4 system) \<and> 0 \<le> tollerance s"
  then show "\<exists>s'. run_steps rk4 s systems = Inr s'"
    using run_steps_returns by blast
qed

theorem time_advances_by_step_sizes_witness:
  "keeps_size euler_call still \<and> 0 \<le> tollerance resting \<and>
   step_sizes euler_call resting [still, still] = [1 / 1000, 27 / 20000] \<and>
   (\<exists>s1. do_step euler_call resting still = Inr s1 \<and> time s1 = 1 / 1000) \<and>
   (\<exists>s'. run_steps euler_call resting [still, still] = Inr s' \<and> time s' = 47 / 20000)"
proof -
  have ks: "\<forall>system \<in> set [still, still]. keeps_size euler_call system"
    by (simp add: keeps_size_euler_still)
  have sz: "step_sizes euler_call resting [still, still] = [1 / 1000, 27 / 20000]"
    by (simp add: resting_step split: sum.splits) (simp add: resting_def initialize_def)
  note t = time_advances_by_step_sizes [of euler_call resting still "[still, still]"]
  from t ks resting_tol obtain s' where s': "run_steps euler_call resting [still, still] = Inr s'"
    by blast
  with t have "time s' = foldl (+) (time resting) (step_sizes euler_call resting [still, still])"
    by blast
  then have "time s' = foldl (+) (time resting) [1 / 1000, 27 / 20000]"
    by (simp only: sz)
  then have "time s' = 47 / 20000"
    by (simp add: resting_def initialize_def)
  with s' have two: "\<exists>s'. run_steps euler_call resting [still, still] = Inr s' \<and> time s' = 47 / 20000"
    by blast
  from t resting_step
  have "time (resting\<lparr>time := 1 / 1000, time_delta := 27 / 20000\<rparr>) = time resting + time_delta resting"
    by blast
  then have "time (resting\<lparr>time := 1 / 1000, time_delta := 27 / 20000\<rparr>) = 1 / 1000"
    by simp
  with resting_step have one: "\<exists>s1. do_step euler_call resting still = Inr s1 \<and> time s1 = 1 / 1000"
    by blast
  from keeps_size_euler_still resting_tol sz one two show ?thesis by (intro conjI)
qed

text \<open>
  C8. The tolerance set by the constructor stays as it is: no call of \<open>initialize\<close>, of
  either \<open>do_step\<close> or of an accessor changes it, and so no sequence of such calls does.
\<close>

theorem tollerance_never_changes:
  "tollerance (make_stepper_adaptive_rk4 k0 tol) = tol \<and>
   (\<forall>s'. perform rk4 call_op s c = Inr s' \<longrightarrow> tollerance s' = tollerance s) \<and>
   (\<forall>s'. perform_all rk4 call_op (make_stepper_adaptive_rk4 k0 tol) cs = Inr s' \<longrightarrow> tollerance s' = tol)"
proof (intro conjI impI allI)
  show c: "tollerance (make_stepper_adaptive_rk4 k0 tol) = tol" by (simp add: make_stepper_adaptive_rk4_def)
  fix s'
  show "tollerance s' = tollerance s" if "perform rk4 call_op s c = Inr s'"
    using that by (rule perform_tollerance)
  show "tollerance s' = tol" if "perform_all rk4 call_op (make_stepper_adaptive_rk4 k0 tol) cs = Inr s'"
    using perform_all_tollerance [OF that] c by simp
qed

theorem tollerance_never_changes_witness:
  "perform_all euler_call euler_call (make_stepper_adaptive_rk4 () default_tollerance)
      [Initialize [1, 2] 0 (1 / 1000), CurrentState, Step still, CurrentTime,
       FixedStep still [3] 0 1, OrderStep, CurrentTimeStep]
     = Inr (resting\<lparr>time := 1 / 1000, time_delta := 27 / 20000\<rparr>) \<and>
   perform euler_call euler_call resting (Step still)
     = Inr (resting\<lparr>time := 1 / 1000, time_delta := 27 / 20000\<rparr>) \<and>
   tollerance (resting\<lparr>time := 1 / 1000, time_delta := 27 / 20000\<rparr>) = tollerance resting \<and>
   tollerance (resting\<lparr>time := 1 / 1000, time_delta := 27 / 20000\<rparr>) = default_tollerance"
proof -
  have one: "perform euler_call euler_call resting (Step still)
     = Inr (resting\<lparr>time := 1 / 1000, time_delta := 27 / 20000\<rparr>)"
    by (simp add: resting_step)
  have run: "perform_all euler_call euler_call (make_stepper_adaptive_rk4 () default_tollerance)
      [Initialize [1, 2] 0 (1 / 1000), CurrentState, Step still, CurrentTime,
       FixedStep still [3] 0 1, OrderStep, CurrentTimeStep]
     = Inr (resting\<lparr>time := 1 / 1000, time_delta := 27 / 20000\<rparr>)"
    by (simp add: resting_def [symmetric] resting_step do_step_fixed_def euler_call_def)
  note t = tollerance_never_changes [of "()" default_tollerance euler_call euler_call resting "Step still"
      "[Initialize [1, 2] 0 (1 / 1000), CurrentState, Step still, CurrentTime,
        FixedStep still [3] 0 1, OrderStep, CurrentTimeStep]"]
  from t one have "tollerance (resting\<lparr>time := 1 / 1000, time_delta := 27 / 20000\<rparr>) = tollerance resting"
    by blast
  moreover from t run have "tollerance (resting\<lparr>time := 1 / 1000, time_delta := 27 / 20000\<rparr>) = default_tollerance"
    by blast
  ultimately show ?thesis using run one by (intro conjI)
qed

section \<open>The claims about the trapezoidal stepper\<close>

text \<open>
  C9. A call of \<open>do_step\<close> of the trapezoidal stepper overwrites the vector \<open>x\<close>, which
  keeps its length, with the result of the update and adds one to the step counter (an
  \<open>unsigned long\<close>, so modulo \<open>2^64\<close>). Of the stepper nothing else that a caller can
  see changes: the order stays, and the two private derivative buffers hold the two
  samples. The hypotheses say that the system leaves both buffers as long as \<open>x\<close>.
\<close>

theorem trapezoidal_step_effects:
  assumes "length x \<le> length (system x (m_dxdt_start s) t)"
    and "length x \<le> length (system x (m_dxdt_end s) (t + dt))"
  shows "\<exists>s' x'. trapezoidal_do_step s system x t dt = Inr (s', x') \<and>
      length x' = length x \<and>
      accumulate_operation x (*) (0.5 * dt) (system x (m_dxdt_start s) t)
        (0.5 * dt) (system x (m_dxdt_end s) (t + dt)) = Inr x' \<and>
      steps s' = steps s + 1 \<and>
      unat (steps s') = (unat (steps s) + 1) mod 2 ^ 64 \<and>
      trapezoidal_order_step s' = trapezoidal_order_step s \<and>
      s' = s\<lparr>m_dxdt_start := system x (m_dxdt_start s) t,
             m_dxdt_end := system x (m_dxdt_end s) (t + dt),
             m_steps := m_steps s + 1\<rparr>"
proof -
  let ?s' = "s\<lparr>m_dxdt_start := system x (m_dxdt_start s) t,
             m_dxdt_end := system x (m_dxdt_end s) (t + dt),
             m_steps := m_steps s + 1\<rparr>"
  from trapezoidal_do_step_Inr [where x = x and system = system and s = s and t = t and dt = dt, OF assms]
  obtain x' where d: "trapezoidal_do_step s system x t dt = Inr (?s', x')"
    and a: "accumulate_operation x (*) (0.5 * dt) (system x (m_dxdt_start s) t)
        (0.5 * dt) (system x (m_dxdt_end s) (t + dt)) = Inr x'"
    and len: "length x' = length x"
    by blast
  have st: "steps ?s' = steps s + 1" by (simp add: steps_def)
  then have un: "unat (steps ?s') = (unat (steps s) + 1) mod 2 ^ 64"
    by (simp add: unat_word_ariths)
  have ord: "trapezoidal_order_step ?s' = trapezoidal_order_step s"
    by (simp add: trapezoidal_order_step_def)
  from d len a st un ord show ?thesis by (intro exI conjI) simp_all
qed

theorem trapezoidal_step_effects_witness:
  "length [1::real] \<le> length (ramp [1] (m_dxdt_start (adjust_size True make_stepper_trapezoidal [1])) 0) \<and>
   length [1::real] \<le> length (ramp [1] (m_dxdt_end (adjust_size True make_stepper_trapezoidal [1])) (0 + 2)) \<and>
   (\<exists>s' x'. trapezoidal_do_step (adjust_size True make_stepper_trapezoidal [1]) ramp [1] 0 2 = Inr (s', x') \<and>
      length x' = 1 \<and> steps s' = 1 \<and> trapezoidal_order_step s' = 1)"
proof -
  from trapezoidal_step_effects [where x = "[1]" and system = ramp and s = "adjust_size True make_stepper_trapezoidal [1]" and t = 0 and dt = 2, OF ramp_start ramp_end]
  obtain s' x' where d: "trapezoidal_do_step (adjust_size True make_stepper_trapezoidal [1]) ramp [1] 0 2 = Inr (s', x')"
    and len: "length x' = length [1::real]"
    and st: "steps s' = steps (adjust_size True make_stepper_trapezoidal [1]) + 1"
    and ord: "trapezoidal_order_step s' = trapezoidal_order_step (adjust_size True make_stepper_trapezoidal [1])"
    by blast
  from st have "steps s' = 1" by (simp add: steps_def adjust_size_def make_stepper_trapezoidal_def)
  moreover from ord have "trapezoidal_order_step s' = 1" by (simp add: trapezoidal_order_step_def)
  moreover from len have "length x' = 1" by simp
  ultimately show ?thesis using d ramp_start ramp_end by blast
qed

text \<open>
  C10. Both derivative samples of a call of \<open>do_step\<close> are taken at the input state
  \<open>x\<close>, the first at time \<open>t\<close> and the second at time \<open>t + dt\<close>, and every component of the
  new state is \<open>x[i] + 0.5 * dt * f(x, t)[i] + 0.5 * dt * f(x, t + dt)[i]\<close>. The second
  sample is not taken at a predicted state at the end of the step.
\<close>

theorem trapezoidal_update_formula:
  assumes "length x \<le> length (system x (m_dxdt_start s) t)"
    and "length x \<le> length (system x (m_dxdt_end s) (t + dt))"
  shows "\<exists>s' x'. trapezoidal_do_step s system x t dt = Inr (s', x') \<and>
      m_dxdt_start s' = system x (m_dxdt_start s) t \<and>
      m_dxdt_end s' = system x (m_dxdt_end s) (t + dt) \<and>
      length x' = length x \<and>
      (\<forall>i<length x. x' ! i =
          x ! i + 0.5 * dt * system x (m_dxdt_start s) t ! i +
                  0.5 * dt * system x (m_dxdt_end s) (t + dt) ! i)"
proof -
  let ?s' = "s\<lparr>m_dxdt_start := system x (m_dxdt_start s) t,
             m_dxdt_end := system x (m_dxdt_end s) (t + dt),
             m_steps := m_steps s + 1\<rparr>"
  from trapezoidal_do_step_Inr [where x = x and system = system and s = s and t = t and dt = dt, OF assms]
  obtain x' where d: "trapezoidal_do_step s system x t dt = Inr (?s', x')"
    and len: "length x' = length x"
    and nth: "\<forall>i<length x. x' ! i =
          x ! i + (0.5 * dt * system x (m_dxdt_start s) t ! i +
                   0.5 * dt * system x (m_dxdt_end s) (t + dt) ! i)"
    by blast
  from nth have nth': "\<forall>i<length x. x' ! i =
          x ! i + 0.5 * dt * system x (m_dxdt_start s) t ! i +
                  0.5 * dt * system x (m_dxdt_end s) (t + dt) ! i"
    by (simp add: add.assoc)
  have "m_dxdt_start ?s' = system x (m_dxdt_start s) t"
    and "m_dxdt_end ?s' = system x (m_dxdt_end s) (t + dt)"
    by simp_all
  with d len nth' show ?thesis by (intro exI conjI)
qed

theorem trapezoidal_update_formula_witness:
  "length [1::real] \<le> length (ramp [1] (m_dxdt_start (adjust_size True make_stepper_trapezoidal [1])) 0) \<and>
   length [1::real] \<le> length (ramp [1] (m_dxdt_end (adjust_size True make_stepper_trapezoidal [1])) (0 + 2)) \<and>
   (\<exists>s' x'. trapezoidal_do_step (adjust_size True make_stepper_trapezoidal [1]) ramp [1] 0 2 = Inr (s', x') \<and>
      m_dxdt_start s' = [1] \<and> m_dxdt_end s' = [3] \<and> x' = [5])"
proof -
  from trapezoidal_update_formula [where x = "[1]" and system = ramp and s = "adjust_size True make_stepper_trapezoidal [1]" and t = 0 and dt = 2, OF ramp_start ramp_end]
  obtain s' x' where d: "trapezoidal_do_step (adjust_size True make_stepper_trapezoidal [1]) ramp [1] 0 2 = Inr (s', x')"
    and ds: "m_dxdt_start s' = ramp [1] (m_dxdt_start (adjust_size True make_stepper_trapezoidal [1])) 0"
    and de: "m_dxdt_end s' = ramp [1] (m_dxdt_end (adjust_size True make_stepper_trapezoidal [1])) (0 + 2)"
    and len: "length x' = length [1::real]"
    and nth: "\<forall>i<length [1::real]. x' ! i =
          [1] ! i + 0.5 * 2 * ramp [1] (m_dxdt_start (adjust_size True make_stepper_trapezoidal [1])) 0 ! i +
                  0.5 * 2 * ramp [1] (m_dxdt_end (adjust_size True make_stepper_trapezoidal [1])) (0 + 2) ! i"
    by blast
  from nth have "x' ! 0 = 5" by (simp add: ramp_def)
  with len have "x' = [5]" by (cases x') simp_all
  moreover from ds have "m_dxdt_start s' = [1]" by (simp add: ramp_def)
  moreover from de have "m_dxdt_end s' = [3]" by (simp add: ramp_def)
  ultimately show ?thesis using d ramp_start ramp_end by blast
qed

end
